theory Spec2Isabelle
  imports Complex_Main "HOL-Library.Log_Nat" "HOL-Library.Sublist"
begin

chapter \<open>The POKT tracker bot\<close>

text \<open>
  \<^verbatim>\<open>src/app.py\<close> is a Telegram bot: a Flask webhook that answers chat commands, and a
  monitor thread that every 300 seconds fetches transactions, reports the large ones with
  the label of the receiving wallet, and reports news of the Shannon upgrade. This theory
  embeds its functions in HOL, one definition for each (with the source's names and
  line numbers), and proves what the specification says about them.
\<close>

section \<open>Python values\<close>

text \<open>
  The program works on JSON-like Python values: the transactions it filters and the
  webhook payloads it dispatches on are nested dicts. A dict with string keys is an
  association list read with \<open>map_of\<close>. A Python float is a binary64 number: a
  rational, one of the two infinities or NaN (the two zeros are not told apart: no
  comparison of the program does).
\<close>

datatype pyfloat = Finite rat | PosInf | NegInf | NaN

datatype pyval =
    PNone
  | PBool bool
  | PInt int
  | PFloat pyfloat
  | PStr string
  | PList "pyval list"
  | PDict "(string \<times> pyval) list"

text \<open>
  The exception classes the program can meet; a raise is a value \<open>Inl e\<close>.
  \<open>RequestException d\<close> is any exception of the class
  \<^verbatim>\<open>requests.RequestException\<close>, \<open>d\<close> its text \<^verbatim>\<open>str(e)\<close>.
\<close>

datatype error =
    AttributeError
  | TypeError
  | ValueError
  | KeyError
  | OverflowError
  | RequestException string

fun ebind :: "error + 'a \<Rightarrow> ('a \<Rightarrow> error + 'b) \<Rightarrow> error + 'b" where
  "ebind (Inl e) f = Inl e"
| "ebind (Inr v) f = f v"

text \<open>
  \<^verbatim>\<open>d.get(k, default)\<close>: a lookup on a dict, \<^verbatim>\<open>AttributeError\<close> on a value
  that has no \<^verbatim>\<open>get\<close>.
\<close>

fun py_get :: "pyval \<Rightarrow> string \<Rightarrow> pyval \<Rightarrow> error + pyval" where
  "py_get (PDict kvs) k d = Inr (case map_of kvs k of Some v \<Rightarrow> v | None \<Rightarrow> d)"
| "py_get PNone k d = Inl AttributeError"
| "py_get (PBool b) k d = Inl AttributeError"
| "py_get (PInt i) k d = Inl AttributeError"
| "py_get (PFloat x) k d = Inl AttributeError"
| "py_get (PStr s) k d = Inl AttributeError"
| "py_get (PList xs) k d = Inl AttributeError"

subsection \<open>Floats\<close>

text \<open>
  Rounding of a rational to the nearest binary64 number, ties to the even significand:
  53 significant bits, the least exponent of a bit is \<open>-1074\<close> (subnormal numbers).
\<close>

definition pow2 :: "int \<Rightarrow> rat" where
  "pow2 e = (if 0 \<le> e then 2 ^ nat e else 1 / 2 ^ nat (- e))"

definition round_half_even :: "rat \<Rightarrow> int" where
  "round_half_even q =
     (let n = \<lfloor>q\<rfloor>; r = q - of_int n
      in if r < 1 / 2 then n else if 1 / 2 < r then n + 1 else if even n then n else n + 1)"

definition ilog2 :: "rat \<Rightarrow> int" where
  "ilog2 q =
     (let (a, b) = quotient_of \<bar>q\<bar>; d = bitlen a - bitlen b
      in if pow2 d \<le> \<bar>q\<bar> then d else d - 1)"

definition round_double :: "rat \<Rightarrow> rat" where
  "round_double q =
     (if q = 0 then 0
      else let p = max (ilog2 q - 52) (- 1074)
           in of_int (round_half_even (q / pow2 p)) * pow2 p)"

text \<open>
  \<^verbatim>\<open>float(x)\<close>. An int is rounded, and one that rounds beyond the largest double
  raises \<^verbatim>\<open>OverflowError\<close>; \<^verbatim>\<open>None\<close>, a list and a dict raise
  \<^verbatim>\<open>TypeError\<close>. For a str the result is that of Python's own parser of numeric
  literals, which is no code of this program: it is the parameter \<open>str_float\<close>, with
  \<open>None\<close> where the parser raises \<^verbatim>\<open>ValueError\<close>.
\<close>

definition int_overflows :: "int \<Rightarrow> bool" where
  "int_overflows i = (2 ^ 1024 - 2 ^ 970 \<le> \<bar>i\<bar>)"

fun py_float :: "(string \<Rightarrow> pyfloat option) \<Rightarrow> pyval \<Rightarrow> error + pyfloat" where
  "py_float str_float PNone = Inl TypeError"
| "py_float str_float (PBool b) = Inr (Finite (if b then 1 else 0))"
| "py_float str_float (PInt i) =
     (if int_overflows i then Inl OverflowError
      else Inr (Finite (round_double (of_int i))))"
| "py_float str_float (PFloat x) = Inr x"
| "py_float str_float (PStr s) =
     (case str_float s of None \<Rightarrow> Inl ValueError | Some x \<Rightarrow> Inr x)"
| "py_float str_float (PList xs) = Inl TypeError"
| "py_float str_float (PDict kvs) = Inl TypeError"

text \<open>\<^verbatim>\<open>x / n\<close> for a float \<open>x\<close> and a positive int \<open>n\<close> that is itself a double.\<close>

fun float_div :: "pyfloat \<Rightarrow> rat \<Rightarrow> pyfloat" where
  "float_div (Finite q) n = Finite (round_double (q / n))"
| "float_div PosInf n = PosInf"
| "float_div NegInf n = NegInf"
| "float_div NaN n = NaN"

text \<open>
  \<^verbatim>\<open>x >= t\<close> for a float \<open>x\<close> and a finite number \<open>t\<close> (an int or a finite
  float): Python compares the exact values, and NaN compares false.
\<close>

fun float_ge :: "pyfloat \<Rightarrow> rat \<Rightarrow> bool" where
  "float_ge (Finite q) t = (t \<le> q)"
| "float_ge PosInf t = True"
| "float_ge NegInf t = False"
| "float_ge NaN t = False"

section \<open>Movement Detector: \<^verbatim>\<open>detect_large_movements\<close>\<close>

text \<open>
  The alert dict built at lines 50 to 56, as a record: \<open>m_hash\<close> is its key
  \<^verbatim>\<open>"tx_hash"\<close>, \<open>m_amount\<close> is \<^verbatim>\<open>"amount"\<close>, \<open>m_from\<close> is
  \<^verbatim>\<open>"from"\<close>, \<open>m_to\<close> is \<^verbatim>\<open>"to"\<close> and \<open>m_time\<close> is \<^verbatim>\<open>"time"\<close>.
\<close>

record movement =
  m_hash :: pyval
  m_amount :: pyfloat
  m_from :: pyval
  m_to :: pyval
  m_time :: pyval

text \<open>\<^verbatim>\<open>tx.get("stdTx", {}).get("msg", {}).get("value", {})\<close>\<close>

definition tx_value :: "pyval \<Rightarrow> error + pyval" where
  "tx_value tx =
     ebind (py_get tx ''stdTx'' (PDict [])) (\<lambda>s.
     ebind (py_get s ''msg'' (PDict [])) (\<lambda>m.
     py_get m ''value'' (PDict [])))"

text \<open>
  Line 48 in two steps: the raw amount \<^verbatim>\<open><value>.get("amount", 0)\<close>, then
  \<^verbatim>\<open>float(<raw amount>) / 1_000_000\<close>.
\<close>

definition raw_amount :: "pyval \<Rightarrow> error + pyval" where
  "raw_amount tx = ebind (tx_value tx) (\<lambda>v. py_get v ''amount'' (PInt 0))"

definition tx_amount :: "(string \<Rightarrow> pyfloat option) \<Rightarrow> pyval \<Rightarrow> error + pyfloat" where
  "tx_amount str_float tx =
     ebind (raw_amount tx) (\<lambda>a.
     ebind (py_float str_float a) (\<lambda>x.
     Inr (float_div x 1000000)))"

text \<open>
  The body of the \<^verbatim>\<open>try\<close> (lines 48 to 56) for one transaction: \<open>Inr (Some m)\<close>
  when an alert is appended, \<open>Inr None\<close> when the amount is below the threshold,
  \<open>Inl e\<close> when \<open>e\<close> is raised.
\<close>

definition large_movement ::
    "(string \<Rightarrow> pyfloat option) \<Rightarrow> pyval \<Rightarrow> rat \<Rightarrow> error + movement option" where
  "large_movement str_float tx threshold =
     ebind (tx_amount str_float tx) (\<lambda>amount.
       if float_ge amount threshold then
         ebind (py_get tx ''hash'' PNone) (\<lambda>h.
         ebind (ebind (tx_value tx) (\<lambda>v. py_get v ''from_address'' PNone)) (\<lambda>fr.
         ebind (ebind (tx_value tx) (\<lambda>v. py_get v ''to_address'' PNone)) (\<lambda>t.
         ebind (py_get tx ''time'' PNone) (\<lambda>tm.
           Inr (Some \<lparr>m_hash = h, m_amount = amount, m_from = fr, m_to = t, m_time = tm\<rparr>)))))
       else Inr None)"

text \<open>
  The loop of lines 46 to 58 with its accumulator \<^verbatim>\<open>large_movements\<close>:
  \<^verbatim>\<open>except (ValueError, TypeError, KeyError): continue\<close> skips the transaction,
  any other exception leaves the function.
\<close>

fun detect_loop ::
    "(string \<Rightarrow> pyfloat option) \<Rightarrow> pyval list \<Rightarrow> rat \<Rightarrow> movement list \<Rightarrow> error + movement list" where
  "detect_loop str_float [] threshold large_movements = Inr large_movements"
| "detect_loop str_float (tx # transactions) threshold large_movements =
     (case large_movement str_float tx threshold of
        Inr (Some m) \<Rightarrow> detect_loop str_float transactions threshold (large_movements @ [m])
      | Inr None \<Rightarrow> detect_loop str_float transactions threshold large_movements
      | Inl e \<Rightarrow>
          if e = ValueError \<or> e = TypeError \<or> e = KeyError
          then detect_loop str_float transactions threshold large_movements
          else Inl e)"

definition detect_large_movements ::
    "(string \<Rightarrow> pyfloat option) \<Rightarrow> pyval list \<Rightarrow> rat \<Rightarrow> error + movement list" where
  "detect_large_movements str_float transactions threshold =
     detect_loop str_float transactions threshold []"

text \<open>
  What the claims about the detector speak of. \<open>tx_ok tx\<close>: the transaction is a
  record in the sense of line 48 (the chain of \<^verbatim>\<open>get\<close> calls runs through dicts,
  whichever keys are missing) and its raw amount, when it is an int, is within the range
  of a double. \<open>caught e\<close>: the \<^verbatim>\<open>except\<close> clause of line 57 handles \<open>e\<close>.
  \<open>reaches\<close>: the amount of line 48 exists and passes the comparison of line 49.
  \<open>alert\<close>: the dict of lines 50 to 56, with \<open>item d k\<close> for \<^verbatim>\<open>d.get(k)\<close>.
\<close>

definition tx_ok :: "pyval \<Rightarrow> bool" where
  "tx_ok tx =
     (case raw_amount tx of
        Inl e \<Rightarrow> False
      | Inr a \<Rightarrow> (case a of PInt i \<Rightarrow> \<not> int_overflows i | _ \<Rightarrow> True))"

definition caught :: "error \<Rightarrow> bool" where
  "caught e = (e = ValueError \<or> e = TypeError \<or> e = KeyError)"

definition item :: "pyval \<Rightarrow> string \<Rightarrow> pyval" where
  "item d k = (case py_get d k PNone of Inr v \<Rightarrow> v | Inl e \<Rightarrow> PNone)"

definition alert :: "(string \<Rightarrow> pyfloat option) \<Rightarrow> pyval \<Rightarrow> movement" where
  "alert str_float tx =
     \<lparr>m_hash = item tx ''hash'',
      m_amount = (case tx_amount str_float tx of Inr a \<Rightarrow> a | Inl e \<Rightarrow> NaN),
      m_from = (case tx_value tx of Inr v \<Rightarrow> item v ''from_address'' | Inl e \<Rightarrow> PNone),
      m_to = (case tx_value tx of Inr v \<Rightarrow> item v ''to_address'' | Inl e \<Rightarrow> PNone),
      m_time = item tx ''time''\<rparr>"

definition reaches :: "(string \<Rightarrow> pyfloat option) \<Rightarrow> rat \<Rightarrow> pyval \<Rightarrow> bool" where
  "reaches str_float threshold tx =
     (case tx_amount str_float tx of Inr a \<Rightarrow> float_ge a threshold | Inl e \<Rightarrow> False)"

definition contribution :: "(string \<Rightarrow> pyfloat option) \<Rightarrow> rat \<Rightarrow> pyval \<Rightarrow> movement list" where
  "contribution str_float threshold tx =
     (case large_movement str_float tx threshold of Inr (Some m) \<Rightarrow> [m] | _ \<Rightarrow> [])"

definition escapes :: "(string \<Rightarrow> pyfloat option) \<Rightarrow> rat \<Rightarrow> pyval \<Rightarrow> bool" where
  "escapes str_float threshold tx =
     (case large_movement str_float tx threshold of Inl e \<Rightarrow> \<not> caught e | _ \<Rightarrow> False)"

text \<open>
  Closed examples: a transfer with the given fields in the nesting the detector reads,
  and an instance of the parameter \<open>str_float\<close> for inputs whose str amounts, if any,
  are no numeric literals.
\<close>

definition tx_of :: "(string \<times> pyval) list \<Rightarrow> pyval" where
  "tx_of kvs = PDict [(''stdTx'', PDict [(''msg'', PDict [(''value'', PDict kvs)])])]"

definition no_str_float :: "string \<Rightarrow> pyfloat option" where
  "no_str_float s = None"

section \<open>Address Classifier: \<^verbatim>\<open>check_exchange_wallet\<close>\<close>

definition known_exchanges :: "(string \<times> string) list" where
  "known_exchanges = [(''0x1234...'', ''Binance''), (''0x5678...'', ''Coinbase'')]"

text \<open>A list or a dict is no dict key: looking one up raises \<^verbatim>\<open>TypeError\<close>.\<close>

fun hashable :: "pyval \<Rightarrow> bool" where
  "hashable (PList xs) = False"
| "hashable (PDict kvs) = False"
| "hashable PNone = True"
| "hashable (PBool b) = True"
| "hashable (PInt i) = True"
| "hashable (PFloat x) = True"
| "hashable (PStr s) = True"

definition check_exchange_wallet :: "pyval \<Rightarrow> error + string" where
  "check_exchange_wallet address =
     (if \<not> hashable address then Inl TypeError
      else Inr (case address of
                  PStr s \<Rightarrow> (case map_of known_exchanges s of Some l \<Rightarrow> l | None \<Rightarrow> ''Unknown'')
                | _ \<Rightarrow> ''Unknown''))"

section \<open>Messages\<close>

text \<open>
  The texts the program sends are Korean string literals with values spliced in. Each
  literal is a constructor here, with the spliced values as its arguments:
  \<open>Welcome\<close> (line 144), \<open>Help\<close> (146), \<open>Status\<close> (148), \<open>AlreadyRunning\<close> (151),
  \<open>Started\<close> (155), \<open>Stopped\<close> (158), \<open>Echo text\<close> (160),
  \<open>Alert movement label\<close> (104 to 111) and \<open>News title link\<close> (76).
\<close>

datatype message =
    Welcome
  | Help
  | Status
  | AlreadyRunning
  | Started
  | Stopped
  | Echo pyval
  | Alert movement string
  | News string string

section \<open>News Watcher: \<^verbatim>\<open>fetch_migration_news\<close>\<close>

text \<open>
  What \<^verbatim>\<open>feedparser.parse\<close> gives: an exception, or the entries of the feed. An
  entry may lack a title or a link; reading a missing attribute raises
  \<^verbatim>\<open>AttributeError\<close>.
\<close>

record entry =
  title :: "string option"
  link :: "string option"

datatype feed_result = FeedFails | Feed "entry list"

text \<open>
  \<^verbatim>\<open>str.lower\<close> on the letters A to Z. Every letter of the two keywords is an ASCII
  letter and is the lower case of its capital only, so the tests of line 75 do not depend
  on what \<^verbatim>\<open>lower\<close> does to any other character.
\<close>

definition lower_char :: "char \<Rightarrow> char" where
  "lower_char c =
     (let n = (of_char c :: nat) in if 65 \<le> n \<and> n \<le> 90 then char_of (n + 32) else c)"

definition lower :: "string \<Rightarrow> string" where
  "lower s = map lower_char s"

definition is_news :: "string \<Rightarrow> bool" where
  "is_news t = (sublist ''shannon'' (lower t) \<or> sublist ''upgrade'' (lower t))"

fun news_loop :: "entry list \<Rightarrow> error + message option" where
  "news_loop [] = Inr None"
| "news_loop (e # es) =
     (case title e of
        None \<Rightarrow> Inl AttributeError
      | Some t \<Rightarrow>
          if is_news t
          then (case link e of None \<Rightarrow> Inl AttributeError | Some l \<Rightarrow> Inr (Some (News t l)))
          else news_loop es)"

definition fetch_migration_news :: "feed_result \<Rightarrow> message option" where
  "fetch_migration_news feed =
     (case feed of
        FeedFails \<Rightarrow> None
      | Feed entries \<Rightarrow> (case news_loop (take 5 entries) of Inl e \<Rightarrow> None | Inr r \<Rightarrow> r))"

section \<open>Notifier: \<^verbatim>\<open>send_telegram_message\<close>\<close>

text \<open>
  What the three calls of the \<^verbatim>\<open>try\<close> block (lines 87 to 89) do for one message is
  the transport's business: each may raise, and \<^verbatim>\<open>response.json()\<close> returns a value.
\<close>

record post_result =
  post_raises :: "error option"
  status_raises :: "error option"
  json_result :: "error + pyval"

definition try_post :: "post_result \<Rightarrow> error + pyval" where
  "try_post r =
     (case post_raises r of
        Some e \<Rightarrow> Inl e
      | None \<Rightarrow> (case status_raises r of Some e \<Rightarrow> Inl e | None \<Rightarrow> json_result r))"

definition send_telegram_message ::
    "(pyval \<Rightarrow> message \<Rightarrow> post_result) \<Rightarrow> pyval \<Rightarrow> message \<Rightarrow> error + pyval" where
  "send_telegram_message transport chat_id message =
     (case try_post (transport chat_id message) of
        Inl (RequestException d) \<Rightarrow> Inr (PDict [(''ok'', PBool False), (''description'', PStr d)])
      | Inl e \<Rightarrow> Inl e
      | Inr v \<Rightarrow> Inr v)"

section \<open>Monitor state, Command Dispatcher and Monitor Loop\<close>

text \<open>
  The state of the process: the flag of \<^verbatim>\<open>monitor_stop_event\<close> (line 95), the
  \<^verbatim>\<open>monitor_pokt\<close> threads started so far, and the calls of
  \<^verbatim>\<open>send_telegram_message\<close> made so far, in order. Every caller discards what
  \<^verbatim>\<open>send_telegram_message\<close> returns, so a call is recorded by its arguments
  (\<open>notify\<close>); the call returns whenever the transport fails with its own exceptions
  only, which is taken for granted from here on.
  A thread is at the head of its loop (\<open>Looping\<close>: started, or asleep at line 118), has
  left the loop (\<open>Finished\<close>) or was ended by an exception (\<open>Died\<close>).
\<close>

datatype thread = Looping | Finished | Died error

record sys =
  stop_event :: bool
  threads :: "thread list"
  outbox :: "(pyval \<times> message) list"

text \<open>Line 95, \<^verbatim>\<open>monitor_stop_event = Event()\<close>: a new event's flag is false.\<close>

definition init_sys :: sys where
  "init_sys = \<lparr>stop_event = False, threads = [], outbox = []\<rparr>"

definition notify :: "pyval \<Rightarrow> message \<Rightarrow> sys \<Rightarrow> sys" where
  "notify chat_id message s = s\<lparr>outbox := outbox s @ [(chat_id, message)]\<rparr>"

subsection \<open>The webhook\<close>

text \<open>\<^verbatim>\<open>not update\<close> is true of \<^verbatim>\<open>None\<close>, \<^verbatim>\<open>False\<close>, zero and the empty containers.\<close>

fun truthy :: "pyval \<Rightarrow> bool" where
  "truthy PNone = False"
| "truthy (PBool b) = b"
| "truthy (PInt i) = (i \<noteq> 0)"
| "truthy (PFloat x) = (x \<noteq> Finite 0)"
| "truthy (PStr s) = (s \<noteq> [])"
| "truthy (PList xs) = (xs \<noteq> [])"
| "truthy (PDict kvs) = (kvs \<noteq> [])"

text \<open>\<^verbatim>\<open>k in v\<close> for a str \<open>k\<close>, and \<^verbatim>\<open>v[k]\<close>.\<close>

fun py_contains :: "string \<Rightarrow> pyval \<Rightarrow> error + bool" where
  "py_contains k (PDict kvs) = Inr (map_of kvs k \<noteq> None)"
| "py_contains k (PList xs) = Inr (PStr k \<in> set xs)"
| "py_contains k (PStr s) = Inr (sublist k s)"
| "py_contains k PNone = Inl TypeError"
| "py_contains k (PBool b) = Inl TypeError"
| "py_contains k (PInt i) = Inl TypeError"
| "py_contains k (PFloat x) = Inl TypeError"

fun py_item :: "pyval \<Rightarrow> string \<Rightarrow> error + pyval" where
  "py_item (PDict kvs) k = (case map_of kvs k of Some v \<Rightarrow> Inr v | None \<Rightarrow> Inl KeyError)"
| "py_item PNone k = Inl TypeError"
| "py_item (PBool b) k = Inl TypeError"
| "py_item (PInt i) k = Inl TypeError"
| "py_item (PFloat x) k = Inl TypeError"
| "py_item (PStr s) k = Inl TypeError"
| "py_item (PList xs) k = Inl TypeError"

text \<open>Lines 143 to 160: the reply to one text, and what \<^verbatim>\<open>/monitor\<close> and \<^verbatim>\<open>/stop\<close> do.\<close>

definition dispatch :: "pyval \<Rightarrow> pyval \<Rightarrow> sys \<Rightarrow> sys" where
  "dispatch chat_id text s =
     (if text = PStr ''/start'' then notify chat_id Welcome s
      else if text = PStr ''/help'' then notify chat_id Help s
      else if text = PStr ''/status'' then notify chat_id Status s
      else if text = PStr ''/monitor'' then
        (if \<not> stop_event s then notify chat_id AlreadyRunning s
         else notify chat_id Started
                (s\<lparr>stop_event := False, threads := threads s @ [Looping]\<rparr>))
      else if text = PStr ''/stop'' then notify chat_id Stopped (s\<lparr>stop_event := True\<rparr>)
      else notify chat_id (Echo text) s)"

text \<open>
  Lines 140 to 142: the chat id and the text of the update when it has a
  \<^verbatim>\<open>"message"\<close>, \<open>None\<close> when it has none, the exception a malformed one raises.
\<close>

definition read_update :: "pyval \<Rightarrow> error + (pyval \<times> pyval) option" where
  "read_update update =
     ebind (py_contains ''message'' update) (\<lambda>has_message.
       if has_message then
         ebind (ebind (py_item update ''message'') (\<lambda>m.
                ebind (py_item m ''chat'') (\<lambda>c. py_item c ''id''))) (\<lambda>chat_id.
         ebind (ebind (py_item update ''message'') (\<lambda>m. py_get m ''text'' (PStr []))) (\<lambda>text.
         Inr (Some (chat_id, text))))
       else Inr None)"

text \<open>
  Lines 133 to 161, from the parsed body \<open>update\<close> on: the response (body and status)
  or the exception that leaves the handler, and the state afterwards.
\<close>

definition webhook :: "pyval \<Rightarrow> sys \<Rightarrow> (error + string \<times> nat) \<times> sys" where
  "webhook update s =
     (if \<not> truthy update then (Inr (''Invalid request'', 400), s)
      else
        (case read_update update of
           Inl e \<Rightarrow> (Inl e, s)
         | Inr None \<Rightarrow> (Inr (''ok'', 200), s)
         | Inr (Some (chat_id, text)) \<Rightarrow> (Inr (''ok'', 200), dispatch chat_id text s)))"

subsection \<open>The monitor thread\<close>

text \<open>Lines 18 to 41: the stub returns this list; nothing in its \<^verbatim>\<open>try\<close> raises.\<close>

definition fetch_pokt_transactions :: "pyval list" where
  "fetch_pokt_transactions =
     [PDict [(''hash'', PStr ''abc123''),
             (''stdTx'', PDict
                [(''msg'', PDict
                    [(''value'', PDict
                        [(''amount'', PInt 150000000000),
                         (''from_address'', PStr ''0x1111...''),
                         (''to_address'', PStr ''0x1234...'')])]),
                 (''time'', PStr ''2025-05-29T09:20:00'')])]]"

text \<open>
  Lines 102 to 112, the loop over the alerts; \<open>home\<close> is \<^verbatim>\<open>TELEGRAM_CHAT_ID\<close>.
  An exception of \<^verbatim>\<open>check_exchange_wallet\<close> ends the thread; the messages sent
  before it stay sent.
\<close>

fun alert_loop :: "string \<Rightarrow> movement list \<Rightarrow> sys \<Rightarrow> error option \<times> sys" where
  "alert_loop home [] s = (None, s)"
| "alert_loop home (m # ms) s =
     (case check_exchange_wallet (m_to m) of
        Inl e \<Rightarrow> (Some e, s)
      | Inr to_exchange \<Rightarrow> alert_loop home ms (notify (PStr home) (Alert m to_exchange) s))"

text \<open>Lines 100 to 116: one pass of the loop body before the sleep, for one answer of the feed.\<close>

definition monitor_cycle ::
    "(string \<Rightarrow> pyfloat option) \<Rightarrow> string \<Rightarrow> feed_result \<Rightarrow> sys \<Rightarrow> error option \<times> sys" where
  "monitor_cycle str_float home feed s =
     (case detect_large_movements str_float fetch_pokt_transactions 100000 of
        Inl e \<Rightarrow> (Some e, s)
      | Inr large_movements \<Rightarrow>
          (case alert_loop home large_movements s of
             (Some e, s') \<Rightarrow> (Some e, s')
           | (None, s') \<Rightarrow>
               (None, case fetch_migration_news feed of
                        Some news \<Rightarrow> notify (PStr home) news s'
                      | None \<Rightarrow> s')))"

text \<open>
  Line 99 and one pass: thread \<open>i\<close>, at the head of its loop, reads the flag. If it is
  set the thread leaves the loop; if not, it runs one pass and sleeps (it is at the head
  of the loop again).
\<close>

definition wake ::
    "(string \<Rightarrow> pyfloat option) \<Rightarrow> string \<Rightarrow> nat \<Rightarrow> feed_result \<Rightarrow> sys \<Rightarrow> sys" where
  "wake str_float home i feed s =
     (if i < length (threads s) \<and> threads s ! i = Looping then
        (if stop_event s then s\<lparr>threads := (threads s)[i := Finished]\<rparr>
         else (case monitor_cycle str_float home feed s of
                 (None, s') \<Rightarrow> s'
               | (Some e, s') \<Rightarrow> s'\<lparr>threads := (threads s')[i := Died e]\<rparr>))
      else s)"

text \<open>
  A run of the process is a sequence of events: a request to the webhook, handled to its
  end, or a monitor thread at the head of its loop, which reads the flag and, if it is
  clear, runs one pass. The order of the events is the scheduler's choice, and every
  order is a possible run of the program: a request takes a moment, a thread sleeps for
  300 seconds between two reads. Requests that overlap each other in time are not among
  these runs; \<open>handler_step\<close> below takes the handler of a \<^verbatim>\<open>/monitor\<close>
  command apart for them.
\<close>

datatype event = Request pyval | Wake nat feed_result

fun sys_step :: "(string \<Rightarrow> pyfloat option) \<Rightarrow> string \<Rightarrow> sys \<Rightarrow> event \<Rightarrow> sys" where
  "sys_step str_float home s (Request update) = snd (webhook update s)"
| "sys_step str_float home s (Wake i feed) = wake str_float home i feed s"

fun run :: "(string \<Rightarrow> pyfloat option) \<Rightarrow> string \<Rightarrow> sys \<Rightarrow> event list \<Rightarrow> sys" where
  "run str_float home s [] = s"
| "run str_float home s (e # es) = run str_float home (sys_step str_float home s e) es"

text \<open>The payload Telegram posts for a chat message with the given text.\<close>

definition command :: "pyval \<Rightarrow> string \<Rightarrow> pyval" where
  "command chat_id text =
     PDict [(''message'', PDict [(''chat'', PDict [(''id'', chat_id)]), (''text'', PStr text)])]"

text \<open>The number of monitor loops that are active, and the events that clear the flag.\<close>

definition looping :: "sys \<Rightarrow> nat" where
  "looping s = length (filter (\<lambda>t. t = Looping) (threads s))"

definition start_command :: "event \<Rightarrow> bool" where
  "start_command e =
     (case e of
        Request update \<Rightarrow>
          truthy update \<and>
          (case read_update update of
             Inr (Some (chat_id, text)) \<Rightarrow> text = PStr ''/monitor''
           | _ \<Rightarrow> False)
      | Wake i feed \<Rightarrow> False)"

definition wakes :: "nat \<Rightarrow> event \<Rightarrow> bool" where
  "wakes i e = (case e of Request update \<Rightarrow> False | Wake j feed \<Rightarrow> j = i)"

text \<open>
  Requests that overlap. The server may handle two requests in two threads, and then the
  statements of the two handlers alternate, with each other and with the passes of the
  monitor threads. For a \<^verbatim>\<open>/monitor\<close> command the statements are the read of the
  flag (line 150) and then either the reply of line 151 or, one after the other,
  \<^verbatim>\<open>clear\<close> (line 153), the start of the thread (154) and the reply (155). Each is
  one step on the shared state, and \<open>handler\<close> is the statement a handler is at.
  \<open>overlap\<close> runs two such handlers, for the chats \<open>c1\<close> and \<open>c2\<close>, and the
  monitor threads in the order a schedule gives: a turn is a step of the first handler,
  a step of the second, or thread \<open>i\<close> at the head of its loop.
\<close>

datatype handler = AtGuard | AtClear | AtStart | AtReply message | Returned

fun handler_step :: "pyval \<Rightarrow> handler \<Rightarrow> sys \<Rightarrow> handler \<times> sys" where
  "handler_step chat_id AtGuard s =
     (if \<not> stop_event s then AtReply AlreadyRunning else AtClear, s)"
| "handler_step chat_id AtClear s = (AtStart, s\<lparr>stop_event := False\<rparr>)"
| "handler_step chat_id AtStart s = (AtReply Started, s\<lparr>threads := threads s @ [Looping]\<rparr>)"
| "handler_step chat_id (AtReply message) s = (Returned, notify chat_id message s)"
| "handler_step chat_id Returned s = (Returned, s)"

datatype turn = First | Second | Thread nat feed_result

fun overlap ::
    "(string \<Rightarrow> pyfloat option) \<Rightarrow> string \<Rightarrow> pyval \<Rightarrow> pyval \<Rightarrow> turn list \<Rightarrow>
     handler \<times> handler \<times> sys \<Rightarrow> handler \<times> handler \<times> sys" where
  "overlap str_float home c1 c2 [] st = st"
| "overlap str_float home c1 c2 (First # schedule) (h1, h2, s) =
     (case handler_step c1 h1 s of
        (h1', s') \<Rightarrow> overlap str_float home c1 c2 schedule (h1', h2, s'))"
| "overlap str_float home c1 c2 (Second # schedule) (h1, h2, s) =
     (case handler_step c2 h2 s of
        (h2', s') \<Rightarrow> overlap str_float home c1 c2 schedule (h1, h2', s'))"
| "overlap str_float home c1 c2 (Thread i feed # schedule) (h1, h2, s) =
     overlap str_float home c1 c2 schedule (h1, h2, wake str_float home i feed s)"

text \<open>Closed examples of runs: two requests of one chat, and the alert the stub gives.\<close>

definition stop_request :: event where
  "stop_request = Request (command (PInt 1) ''/stop'')"

definition start_request :: event where
  "start_request = Request (command (PInt 1) ''/monitor'')"

definition stub_alert :: movement where
  "stub_alert = \<lparr>m_hash = PStr ''abc123'', m_amount = Finite 150000,
     m_from = PStr ''0x1111...'', m_to = PStr ''0x1234...'', m_time = PNone\<rparr>"

text \<open>
  What the claim about the News Watcher speaks of: the loop of line 74 stops at the
  first entry that has no title or whose title has a keyword (\<open>stops\<close>), the entry of
  the claim is the first whose title has a keyword (\<open>matches\<close>), and \<open>news_of\<close> is the
  result built from an entry's title and link.
\<close>

definition stops :: "entry \<Rightarrow> bool" where
  "stops e = (case title e of None \<Rightarrow> True | Some t \<Rightarrow> is_news t)"

definition matches :: "entry \<Rightarrow> bool" where
  "matches e = (case title e of None \<Rightarrow> False | Some t \<Rightarrow> is_news t)"

definition news_of :: "entry \<Rightarrow> message option" where
  "news_of e =
     (case title e of
        None \<Rightarrow> None
      | Some t \<Rightarrow> (case link e of None \<Rightarrow> None | Some l \<Rightarrow> Some (News t l)))"

text \<open>A transport that answers every call in the same way, for closed examples.\<close>

definition always :: "post_result \<Rightarrow> pyval \<Rightarrow> message \<Rightarrow> post_result" where
  "always r chat_id message = r"

section \<open>Properties\<close>

subsection \<open>The detection loop\<close>

lemma int_overflows_0: "\<not> int_overflows 0"
  by (simp add: int_overflows_def)

lemma detect_loop_acc:
  "detect_loop sf txs th acc =
     (case detect_loop sf txs th [] of Inl e \<Rightarrow> Inl e | Inr out \<Rightarrow> Inr (acc @ out))"
proof (induction txs arbitrary: acc)
  case Nil
  show ?case by simp
next
  case (Cons tx txs)
  show ?case
  proof (cases "large_movement sf tx th")
    case (Inl e)
    then show ?thesis using Cons.IH [of acc] by simp
  next
    case (Inr r)
    show ?thesis
    proof (cases r)
      case None
      with Inr show ?thesis using Cons.IH [of acc] by simp
    next
      case (Some m)
      with Inr show ?thesis
        using Cons.IH [of "acc @ [m]"] Cons.IH [of "[m]"]
        by (simp split: sum.splits)
    qed
  qed
qed

lemma detect_cons:
  "detect_large_movements sf (tx # txs) th =
     (case large_movement sf tx th of
        Inl e \<Rightarrow> if caught e then detect_large_movements sf txs th else Inl e
      | Inr None \<Rightarrow> detect_large_movements sf txs th
      | Inr (Some m) \<Rightarrow>
          (case detect_large_movements sf txs th of
             Inl e \<Rightarrow> Inl e
           | Inr out \<Rightarrow> Inr (m # out)))"
  unfolding detect_large_movements_def
  by (simp add: caught_def detect_loop_acc [of sf txs th "[m]" for m]
      split: sum.splits option.splits)

lemma detect_append:
  "detect_large_movements sf (xs @ ys) th =
     (case detect_large_movements sf xs th of
        Inl e \<Rightarrow> Inl e
      | Inr out \<Rightarrow> (case detect_large_movements sf ys th of
                     Inl e \<Rightarrow> Inl e | Inr out' \<Rightarrow> Inr (out @ out')))"
proof (induction xs)
  case Nil
  show ?case by (simp add: detect_large_movements_def split: sum.splits)
next
  case (Cons x xs)
  then show ?case by (simp add: detect_cons split: sum.splits option.splits)
qed

lemma detect_no_escape:
  "\<forall>tx \<in> set txs. \<not> escapes sf th tx \<Longrightarrow>
   detect_large_movements sf txs th = Inr (concat (map (contribution sf th) txs))"
proof (induction txs)
  case Nil
  show ?case by (simp add: detect_large_movements_def)
next
  case (Cons tx txs)
  then show ?case
    by (auto simp: detect_cons escapes_def contribution_def split: sum.splits option.splits)
qed

lemma omitted:
  assumes "contribution sf th tx = []" and "\<not> escapes sf th tx"
  shows "detect_large_movements sf (xs @ tx # ys) th = detect_large_movements sf (xs @ ys) th"
proof -
  from assms have eq: "detect_large_movements sf (tx # ys) th = detect_large_movements sf ys th"
    by (auto simp: detect_cons contribution_def escapes_def split: sum.splits option.splits)
  show ?thesis
    unfolding detect_append [of sf xs "tx # ys"] detect_append [of sf xs ys] eq ..
qed

subsection \<open>One transaction\<close>

lemma py_get_item: "py_get d k x = Inr v \<Longrightarrow> py_get d k' PNone = Inr (item d k')"
  by (cases d) (simp_all add: item_def)

lemma tx_value_Inr: "tx_value tx = Inr v \<Longrightarrow> \<exists>kvs. tx = PDict kvs"
  unfolding tx_value_def by (cases tx) simp_all

lemma large_movement_alert:
  "large_movement sf tx th =
     (case tx_amount sf tx of
        Inl e \<Rightarrow> Inl e
      | Inr a \<Rightarrow> if float_ge a th then Inr (Some (alert sf tx)) else Inr None)"
proof (cases "tx_amount sf tx")
  case (Inl e)
  then show ?thesis by (simp add: large_movement_def)
next
  case (Inr a)
  then obtain v where v: "tx_value tx = Inr v"
    by (cases "tx_value tx") (simp_all add: tx_amount_def raw_amount_def)
  with Inr obtain w where "py_get v ''amount'' (PInt 0) = Inr w"
    by (cases "py_get v ''amount'' (PInt 0)") (simp_all add: tx_amount_def raw_amount_def)
  then have gv: "\<And>k. py_get v k PNone = Inr (item v k)"
    by (rule py_get_item)
  from v obtain kvs where "tx = PDict kvs"
    by (auto dest: tx_value_Inr)
  then have gt: "\<And>k. py_get tx k PNone = Inr (item tx k)"
    by (simp add: item_def)
  show ?thesis
    by (simp add: large_movement_def Inr v gv gt alert_def)
qed

lemma contribution_reaches:
  "contribution sf th tx = (if reaches sf th tx then [alert sf tx] else [])"
  by (simp add: contribution_def reaches_def large_movement_alert split: sum.splits)

lemma concat_contribution:
  "concat (map (contribution sf th) txs) = map (alert sf) (filter (reaches sf th) txs)"
  by (induction txs) (simp_all add: contribution_reaches)

lemma py_float_caught:
  "py_float sf a = Inl e \<Longrightarrow> (\<And>i. a = PInt i \<Longrightarrow> \<not> int_overflows i) \<Longrightarrow> caught e"
  by (cases a) (auto simp: caught_def split: if_splits option.splits)

lemma tx_amount_errors:
  assumes "tx_amount sf tx = Inl e" and "tx_ok tx"
  shows "caught e"
proof -
  from assms(2) obtain a where a: "raw_amount tx = Inr a"
    by (cases "raw_amount tx") (simp_all add: tx_ok_def)
  with assms(2) have "\<And>i. a = PInt i \<Longrightarrow> \<not> int_overflows i"
    by (simp add: tx_ok_def)
  moreover from assms(1) a have "py_float sf a = Inl e"
    by (cases "py_float sf a") (simp_all add: tx_amount_def)
  ultimately show ?thesis by (rule py_float_caught [rotated])
qed

lemma tx_ok_no_escape: "tx_ok tx \<Longrightarrow> \<not> escapes sf th tx"
  by (auto simp: escapes_def large_movement_alert dest: tx_amount_errors split: sum.splits)

lemma absent_amount:
  assumes "tx_value tx = Inr (PDict kvs)" and "map_of kvs ''amount'' = None"
  shows "raw_amount tx = Inr (PInt 0)" and "tx_amount sf tx = Inr (Finite 0)"
  using assms by (simp_all add: tx_amount_def raw_amount_def int_overflows_0 round_double_def)

text \<open>
  \<open>tx_ok\<close> asks for no field: it holds of every transaction whose \<^verbatim>\<open>stdTx\<close>,
  \<^verbatim>\<open>msg\<close> and \<^verbatim>\<open>value\<close> entries, where present, are dicts, unless the amount is
  an int beyond the doubles.
\<close>

lemma tx_ok_iff:
  "tx_ok tx \<longleftrightarrow>
     (\<exists>kvs. tx_value tx = Inr (PDict kvs) \<and>
        (\<forall>i. map_of kvs ''amount'' = Some (PInt i) \<longrightarrow> \<not> int_overflows i))"
proof (cases "tx_value tx")
  case (Inl e)
  then show ?thesis by (simp add: tx_ok_def raw_amount_def)
next
  case (Inr v)
  then show ?thesis
    by (cases v)
      (auto simp: tx_ok_def raw_amount_def int_overflows_0 split: option.splits pyval.splits)
qed

subsection \<open>Amounts that are ints\<close>

text \<open>
  An int below \<open>2 ^ 53\<close> is a double, so \<^verbatim>\<open>float\<close> does not change it. For
  such a raw amount the rounding of the quotient never crosses an integer threshold: the
  doubles near the quotient are at most \<open>2 ^ - 19\<close> apart, less than twice the step
  \<open>1 / 1000000\<close> between two quotients. So the comparison of line 49 decides exactly
  whether the raw amount is at least the threshold times 1_000_000.
\<close>

lemma round_half_even_int: "round_half_even (of_int n) = n"
  by (simp add: round_half_even_def)

lemma quotient_of_abs_int: "quotient_of \<bar>of_int i :: rat\<bar> = (\<bar>i\<bar>, 1)"
proof -
  have "\<bar>of_int i :: rat\<bar> = of_int \<bar>i\<bar>" by simp
  moreover have "quotient_of (of_int \<bar>i\<bar> :: rat) = (\<bar>i\<bar>, 1)"
    by (simp add: of_int_rat quotient_of_Fract)
  ultimately show ?thesis by (simp only:)
qed

lemma pow2_nonpos: "p \<le> 0 \<Longrightarrow> \<exists>k. pow2 p = 1 / 2 ^ k"
proof (cases "p = 0")
  case True
  then have "pow2 p = 1 / 2 ^ (0::nat)" by (simp add: pow2_def)
  then show ?thesis by blast
next
  case False
  assume "p \<le> 0"
  with False have "pow2 p = 1 / 2 ^ nat (- p)" by (simp add: pow2_def)
  then show ?thesis by blast
qed

lemma ilog2_int_le:
  assumes "i \<noteq> 0" and "\<bar>i\<bar> < 2 ^ 53"
  shows "ilog2 (of_int i) \<le> 52"
proof -
  have "bitlen \<bar>i\<bar> \<le> 53"
    using assms(2) by (simp add: bitlen_le_iff_power)
  moreover have "bitlen 1 = 1" by (simp add: bitlen_alt_def)
  ultimately have "bitlen \<bar>i\<bar> - bitlen 1 \<le> 52" by simp
  then show ?thesis
    unfolding ilog2_def quotient_of_abs_int Let_def by (simp split: if_splits)
qed

lemma round_double_int_exact:
  assumes "\<bar>i\<bar> < 2 ^ 53"
  shows "round_double (of_int i) = of_int i"
proof (cases "i = 0")
  case True
  then show ?thesis by (simp add: round_double_def)
next
  case False
  define p where "p = max (ilog2 (of_int i) - 52) (- 1074)"
  have "p \<le> 0" using ilog2_int_le [OF False assms] by (simp add: p_def)
  then obtain k where k: "pow2 p = 1 / 2 ^ k"
    using pow2_nonpos by blast
  have "(of_int i :: rat) / pow2 p = of_int (i * 2 ^ k)"
    by (simp add: k)
  then have "round_half_even (of_int i / pow2 p) = i * 2 ^ k"
    by (simp only: round_half_even_int)
  then have "of_int (round_half_even (of_int i / pow2 p)) * pow2 p = (of_int i :: rat)"
    by (simp add: k)
  moreover have "round_double (of_int i) = of_int (round_half_even (of_int i / pow2 p)) * pow2 p"
    using False unfolding round_double_def p_def Let_def by simp
  ultimately show ?thesis by (simp only:)
qed

lemma py_float_int_exact:
  "\<bar>i\<bar> < 2 ^ 53 \<Longrightarrow> py_float sf (PInt i) = Inr (Finite (of_int i))"
proof -
  assume a: "\<bar>i\<bar> < 2 ^ 53"
  have "(2::int) ^ 53 \<le> 2 ^ 1024 - 2 ^ 970" by simp
  with a have "\<not> int_overflows i" unfolding int_overflows_def by linarith
  with a show ?thesis by (simp add: round_double_int_exact)
qed

lemma pow2_powi: "pow2 e = 2 powi e"
proof (cases "0 \<le> e")
  case True
  then show ?thesis by (simp add: pow2_def power_int_def)
next
  case False
  have "inverse (2::rat) ^ nat (- e) = 1 / 2 ^ nat (- e)"
    by (simp add: power_one_over inverse_eq_divide)
  with False show ?thesis by (simp only: pow2_def power_int_def if_False)
qed

lemma pow2_pos: "0 < pow2 e"
  by (simp add: pow2_powi)

lemma pow2_less_imp: "pow2 a < pow2 b \<Longrightarrow> a < b"
proof (rule ccontr)
  assume "pow2 a < pow2 b" and "\<not> a < b"
  then have "b \<le> a" by simp
  then have "pow2 b \<le> pow2 a"
    unfolding pow2_powi by (intro power_int_increasing) simp_all
  with \<open>pow2 a < pow2 b\<close> show False by simp
qed

lemma pow2_diff: "pow2 (a - b) = pow2 a / pow2 b"
  by (simp add: pow2_powi power_int_diff)

lemma pow2_nat: "0 \<le> e \<Longrightarrow> pow2 e = 2 ^ nat e"
  by (simp add: pow2_def)

lemma round_half_even_ge: "of_int M \<le> x \<Longrightarrow> M \<le> round_half_even x"
proof -
  assume "of_int M \<le> x"
  then have "M \<le> \<lfloor>x\<rfloor>" by (simp add: le_floor_iff)
  then show ?thesis by (simp add: round_half_even_def Let_def)
qed

lemma round_half_even_less: "x < of_int M - 1 / 2 \<Longrightarrow> round_half_even x < M"
proof -
  assume a: "x < of_int M - 1 / 2"
  then have "x < of_int M" by simp
  then have f: "\<lfloor>x\<rfloor> < M" by (simp add: floor_less_iff)
  show ?thesis
  proof (cases "\<lfloor>x\<rfloor> = M - 1")
    case True
    with a have "x - of_int \<lfloor>x\<rfloor> < 1 / 2" by simp
    with True show ?thesis by (simp add: round_half_even_def Let_def)
  next
    case False
    with f have "\<lfloor>x\<rfloor> + 1 < M" by simp
    then show ?thesis by (simp add: round_half_even_def Let_def)
  qed
qed

lemma ilog2_lower:
  assumes "q \<noteq> 0"
  shows "pow2 (ilog2 q) \<le> \<bar>q\<bar>"
proof -
  obtain a b where ab: "quotient_of \<bar>q\<bar> = (a, b)"
    by (cases "quotient_of \<bar>q\<bar>") simp
  then have b: "0 < b" by (rule quotient_of_denom_pos)
  from ab have q: "\<bar>q\<bar> = of_int a / of_int b" by (rule quotient_of_div)
  from assms have "0 < \<bar>q\<bar>" by simp
  with q b have a: "0 < a" by (simp add: zero_less_divide_iff)
  define d where "d = bitlen a - bitlen b"
  show ?thesis
  proof (cases "pow2 d \<le> \<bar>q\<bar>")
    case True
    then show ?thesis by (simp add: ilog2_def ab d_def Let_def)
  next
    case False
    then have il: "ilog2 q = d - 1" by (simp add: ilog2_def ab d_def Let_def)
    from a have la: "1 \<le> bitlen a" by (simp add: bitlen_alt_def)
    from b have lb: "1 \<le> bitlen b" by (simp add: bitlen_alt_def)
    from bitlen_bounds [OF a] have "(2::int) ^ nat (bitlen a - 1) \<le> a" by simp
    then have "(of_int ((2::int) ^ nat (bitlen a - 1)) :: rat) \<le> of_int a"
      by (simp only: of_int_le_iff)
    then have na: "pow2 (bitlen a - 1) \<le> of_int a"
      using la by (simp add: pow2_nat)
    from bitlen_bounds [OF b] have "b < 2 ^ nat (bitlen b)" by simp
    then have "(of_int b :: rat) < of_int ((2::int) ^ nat (bitlen b))"
      by (simp only: of_int_less_iff)
    then have nb: "of_int b < pow2 (bitlen b)"
      using lb by (simp add: pow2_nat)
    have "pow2 (d - 1) = pow2 (bitlen a - 1) / pow2 (bitlen b)"
      unfolding d_def by (simp add: pow2_diff [symmetric] algebra_simps)
    also have "\<dots> \<le> of_int a / pow2 (bitlen b)"
      using na pow2_pos [of "bitlen b"] by (simp add: divide_right_mono)
    also have "\<dots> \<le> of_int a / of_int b"
      using nb a b by (intro divide_left_mono) (simp_all add: pow2_pos)
    finally show ?thesis by (simp add: il q)
  qed
qed

lemma ilog2_less:
  assumes "q \<noteq> 0" and "\<bar>q\<bar> < pow2 n"
  shows "ilog2 q < n"
proof -
  from ilog2_lower [OF assms(1)] assms(2) have "pow2 (ilog2 q) < pow2 n" by simp
  then show ?thesis by (rule pow2_less_imp)
qed

lemma round_double_scaled:
  assumes "q \<noteq> 0" and "\<bar>q\<bar> < pow2 34"
  shows "\<exists>k. 19 \<le> k \<and> round_double q = of_int (round_half_even (q * 2 ^ k)) / 2 ^ k"
proof -
  define p where "p = max (ilog2 q - 52) (- 1074)"
  from ilog2_less [OF assms] have "p \<le> - 19" by (simp add: p_def)
  then have k: "pow2 p = 1 / 2 ^ nat (- p)" and "19 \<le> nat (- p)"
    by (simp_all add: pow2_def)
  moreover have "round_double q = of_int (round_half_even (q / pow2 p)) * pow2 p"
    using assms(1) unfolding round_double_def p_def Let_def by simp
  ultimately have "19 \<le> nat (- p)
      \<and> round_double q = of_int (round_half_even (q * 2 ^ nat (- p))) / 2 ^ nat (- p)"
    by simp
  then show ?thesis by blast
qed

lemma quotient_ge_iff:
  assumes "\<bar>i\<bar> < 2 ^ 53"
  shows "of_int t \<le> round_double (of_int i / 1000000) \<longleftrightarrow> t * 1000000 \<le> i"
proof (cases "i = 0")
  case True
  then show ?thesis by (simp add: round_double_def)
next
  case False
  define q :: rat where "q = of_int i / 1000000"
  from False have q0: "q \<noteq> 0" by (simp add: q_def)
  have "\<bar>q\<bar> = of_int \<bar>i\<bar> / 1000000" by (simp add: q_def)
  also have "\<dots> < of_int (2 ^ 53) / 1000000"
    using assms by (simp only: of_int_less_iff divide_strict_right_mono zero_less_numeral)
  also have "\<dots> < pow2 34" by (simp add: pow2_def)
  finally have "\<bar>q\<bar> < pow2 34" .
  from round_double_scaled [OF q0 this] obtain k where k: "19 \<le> k"
    and r: "round_double q = of_int (round_half_even (q * 2 ^ k)) / 2 ^ k"
    by blast
  have pk: "(0::rat) < 2 ^ k" by simp
  have big: "(524288::rat) \<le> 2 ^ k"
  proof -
    have "(2::rat) ^ 19 \<le> 2 ^ k" using k by (intro power_increasing) simp_all
    then show ?thesis by simp
  qed
  show ?thesis
  proof
    assume "t * 1000000 \<le> i"
    then have "(of_int (t * 1000000) :: rat) \<le> of_int i" by (simp only: of_int_le_iff)
    then have "of_int t \<le> q" by (simp add: q_def)
    then have "of_int t * 2 ^ k \<le> q * 2 ^ k" using pk by (simp only: mult_le_cancel_right_pos)
    then have "of_int (t * 2 ^ k) \<le> q * 2 ^ k" by simp
    then have "t * 2 ^ k \<le> round_half_even (q * 2 ^ k)" by (rule round_half_even_ge)
    then have "(of_int (t * 2 ^ k) :: rat) \<le> of_int (round_half_even (q * 2 ^ k))"
      by (simp only: of_int_le_iff)
    then have "of_int t * 2 ^ k \<le> (of_int (round_half_even (q * 2 ^ k)) :: rat)" by simp
    then have "of_int t \<le> (of_int (round_half_even (q * 2 ^ k)) :: rat) / 2 ^ k"
      using pk by (simp only: pos_le_divide_eq)
    then show "of_int t \<le> round_double (of_int i / 1000000)"
      by (simp only: r q_def [symmetric])
  next
    assume ge: "of_int t \<le> round_double (of_int i / 1000000)"
    show "t * 1000000 \<le> i"
    proof (rule ccontr)
      assume "\<not> t * 1000000 \<le> i"
      then have "i \<le> t * 1000000 - 1" by simp
      then have "(of_int i :: rat) \<le> of_int (t * 1000000 - 1)" by (simp only: of_int_le_iff)
      then have "q \<le> of_int t - 1 / 1000000" by (simp add: q_def field_simps)
      then have "q * 2 ^ k \<le> (of_int t - 1 / 1000000) * 2 ^ k"
        using pk by (simp only: mult_le_cancel_right_pos)
      also have "\<dots> = of_int (t * 2 ^ k) - 2 ^ k / 1000000" by (simp add: algebra_simps)
      also have "\<dots> < of_int (t * 2 ^ k) - 1 / 2" using big by simp
      finally have "round_half_even (q * 2 ^ k) < t * 2 ^ k" by (rule round_half_even_less)
      then have "(of_int (round_half_even (q * 2 ^ k)) :: rat) < of_int (t * 2 ^ k)"
        by (simp only: of_int_less_iff)
      then have "(of_int (round_half_even (q * 2 ^ k)) :: rat) < of_int t * 2 ^ k" by simp
      then have "(of_int (round_half_even (q * 2 ^ k)) :: rat) / 2 ^ k < of_int t"
        using pk by (simp only: pos_divide_less_eq)
      with ge r show False by (simp add: q_def)
    qed
  qed
qed

lemma reaches_int_iff:
  assumes "raw_amount tx = Inr (PInt i)" and "\<bar>i\<bar> < 2 ^ 53"
  shows "tx_amount sf tx = Inr (Finite (round_double (of_int i / 1000000)))"
    and "reaches sf (of_int t) tx \<longleftrightarrow> t * 1000000 \<le> i"
proof -
  from assms(2) have "py_float sf (PInt i) = Inr (Finite (of_int i))"
    by (rule py_float_int_exact)
  with assms(1) show amt: "tx_amount sf tx = Inr (Finite (round_double (of_int i / 1000000)))"
    by (simp add: tx_amount_def del: py_float.simps)
  show "reaches sf (of_int t) tx \<longleftrightarrow> t * 1000000 \<le> i"
    unfolding reaches_def amt using quotient_ge_iff [OF assms(2), of t] by simp
qed

subsection \<open>The detector returns the large movements, in order\<close>

text \<open>
  The detector on lists of transaction records. Take any list of transactions that are
  records (\<open>tx_ok\<close>: the \<^verbatim>\<open>get\<close> chain of line 48 runs through dicts, and
  an int amount is within the range of a double) and any threshold. Then
  \<^verbatim>\<open>detect_large_movements\<close> returns, and its
  result holds exactly one alert for each transaction whose amount
  \<^verbatim>\<open>float(raw) / 1_000_000\<close> exists and is at least the threshold, none for any other
  transaction, in the order of the input. The alert's amount is that quotient, and the
  comparison is inclusive. Where the raw amount is an int below \<open>2 ^ 53\<close> and the
  threshold is an int, the amount is the double nearest to raw / 1_000_000 and the
  transaction is reported exactly when raw is at least threshold times 1_000_000.
  The transaction of the scenario, raw amount 150_000_000_000
  from A to B, gives at threshold 100000 (the default of line 43, which the monitor
  uses) one alert with amount 150000.0 from A to B. Transactions whose amount
  \<^verbatim>\<open>float\<close> rejects with \<^verbatim>\<open>ValueError\<close> or \<^verbatim>\<open>TypeError\<close> are records
  too: the list may hold them, and they are skipped.
\<close>

theorem detect_large_movements_filter:
  assumes "\<forall>tx \<in> set txs. tx_ok tx"
  shows "detect_large_movements sf txs th = Inr (map (alert sf) (filter (reaches sf th) txs))
       \<and> (\<forall>tx \<in> set txs. \<forall>a x. raw_amount tx = Inr a \<and> py_float sf a = Inr x \<longrightarrow>
             m_amount (alert sf tx) = float_div x 1000000
           \<and> (reaches sf th tx \<longleftrightarrow> float_ge (float_div x 1000000) th))
       \<and> (\<forall>q. float_ge (Finite q) th \<longleftrightarrow> th \<le> q)
       \<and> (\<forall>tx \<in> set txs. \<forall>i t. raw_amount tx = Inr (PInt i) \<and> \<bar>i\<bar> < 2 ^ 53 \<longrightarrow>
             m_amount (alert sf tx) = Finite (round_double (of_int i / 1000000))
           \<and> (reaches sf (of_int t) tx \<longleftrightarrow> t * 1000000 \<le> i))
       \<and> detect_large_movements sf
            [tx_of [(''amount'', PInt 150000000000), (''from_address'', PStr ''A''),
                    (''to_address'', PStr ''B'')]] 100000
          = Inr [\<lparr>m_hash = PNone, m_amount = Finite 150000, m_from = PStr ''A'',
                  m_to = PStr ''B'', m_time = PNone\<rparr>]"
proof (intro conjI ballI allI impI)
  show "detect_large_movements sf txs th = Inr (map (alert sf) (filter (reaches sf th) txs))"
    using assms detect_no_escape [of txs sf th]
    by (simp add: tx_ok_no_escape concat_contribution)
next
  fix tx a x
  assume "raw_amount tx = Inr a \<and> py_float sf a = Inr x"
  then have amt: "tx_amount sf tx = Inr (float_div x 1000000)"
    by (simp add: tx_amount_def)
  then show "m_amount (alert sf tx) = float_div x 1000000"
    by (simp add: alert_def)
  from amt show "reaches sf th tx \<longleftrightarrow> float_ge (float_div x 1000000) th"
    by (simp add: reaches_def)
next
  fix q
  show "float_ge (Finite q) th \<longleftrightarrow> th \<le> q" by simp
next
  fix tx i t
  assume a: "raw_amount tx = Inr (PInt i) \<and> \<bar>i\<bar> < 2 ^ 53"
  then have "tx_amount sf tx = Inr (Finite (round_double (of_int i / 1000000)))"
    by (simp add: reaches_int_iff(1))
  then show "m_amount (alert sf tx) = Finite (round_double (of_int i / 1000000))"
    by (simp add: alert_def)
  from a show "reaches sf (of_int t) tx \<longleftrightarrow> t * 1000000 \<le> i"
    by (simp add: reaches_int_iff(2))
next
  show "detect_large_movements sf
            [tx_of [(''amount'', PInt 150000000000), (''from_address'', PStr ''A''),
                    (''to_address'', PStr ''B'')]] 100000
          = Inr [\<lparr>m_hash = PNone, m_amount = Finite 150000, m_from = PStr ''A'',
                  m_to = PStr ''B'', m_time = PNone\<rparr>]"
    by code_simp
qed

theorem detect_large_movements_filter_witness:
  "tx_ok (tx_of [(''amount'', PInt 99999999999), (''to_address'', PStr ''X'')])
   \<and> tx_ok (tx_of [(''amount'', PInt 100000000000), (''to_address'', PStr ''Y'')])
   \<and> tx_ok (tx_of [(''amount'', PInt 150000000000), (''to_address'', PStr ''Z'')])
   \<and> detect_large_movements no_str_float
        [tx_of [(''amount'', PInt 99999999999), (''to_address'', PStr ''X'')],
         tx_of [(''amount'', PInt 100000000000), (''to_address'', PStr ''Y'')],
         tx_of [(''amount'', PInt 150000000000), (''to_address'', PStr ''Z'')]] 100000
     = Inr [\<lparr>m_hash = PNone, m_amount = Finite 100000, m_from = PNone,
             m_to = PStr ''Y'', m_time = PNone\<rparr>,
            \<lparr>m_hash = PNone, m_amount = Finite 150000, m_from = PNone,
             m_to = PStr ''Z'', m_time = PNone\<rparr>]
   \<and> raw_amount (tx_of [(''amount'', PInt 99999999999), (''to_address'', PStr ''X'')])
       = Inr (PInt 99999999999)
   \<and> \<bar>99999999999 :: int\<bar> < 2 ^ 53
   \<and> \<not> reaches no_str_float (of_int 100000)
         (tx_of [(''amount'', PInt 99999999999), (''to_address'', PStr ''X'')])"
proof -
  let ?a = "tx_of [(''amount'', PInt 99999999999), (''to_address'', PStr ''X'')]"
  let ?b = "tx_of [(''amount'', PInt 100000000000), (''to_address'', PStr ''Y'')]"
  let ?c = "tx_of [(''amount'', PInt 150000000000), (''to_address'', PStr ''Z'')]"
  have a: "tx_ok ?a" and b: "tx_ok ?b" and c: "tx_ok ?c"
    by code_simp+
  then have ok: "\<forall>tx \<in> set [?a, ?b, ?c]. tx_ok tx" by simp
  have flt: "map (alert no_str_float) (filter (reaches no_str_float 100000) [?a, ?b, ?c])
     = [\<lparr>m_hash = PNone, m_amount = Finite 100000, m_from = PNone,
             m_to = PStr ''Y'', m_time = PNone\<rparr>,
            \<lparr>m_hash = PNone, m_amount = Finite 150000, m_from = PNone,
             m_to = PStr ''Z'', m_time = PNone\<rparr>]"
    by code_simp
  have raw: "raw_amount ?a = Inr (PInt 99999999999)"
    by code_simp
  have small: "\<bar>99999999999 :: int\<bar> < 2 ^ 53"
    by simp
  note t = detect_large_movements_filter [OF ok, of no_str_float 100000]
  from t have "detect_large_movements no_str_float [?a, ?b, ?c] 100000
      = Inr (map (alert no_str_float) (filter (reaches no_str_float 100000) [?a, ?b, ?c]))"
    by blast
  then have out: "detect_large_movements no_str_float [?a, ?b, ?c] 100000
      = Inr [\<lparr>m_hash = PNone, m_amount = Finite 100000, m_from = PNone,
             m_to = PStr ''Y'', m_time = PNone\<rparr>,
            \<lparr>m_hash = PNone, m_amount = Finite 150000, m_from = PNone,
             m_to = PStr ''Z'', m_time = PNone\<rparr>]"
    by (simp only: flt)
  from t have "\<forall>tx \<in> set [?a, ?b, ?c]. \<forall>i t.
      raw_amount tx = Inr (PInt i) \<and> \<bar>i\<bar> < 2 ^ 53 \<longrightarrow>
        m_amount (alert no_str_float tx) = Finite (round_double (of_int i / 1000000))
      \<and> (reaches no_str_float (of_int t) tx \<longleftrightarrow> t * 1000000 \<le> i)"
    by blast
  then have "raw_amount ?a = Inr (PInt 99999999999) \<and> \<bar>99999999999 :: int\<bar> < 2 ^ 53 \<longrightarrow>
      (reaches no_str_float (of_int 100000) ?a \<longleftrightarrow> 100000 * 1000000 \<le> (99999999999 :: int))"
    by (simp only: list.set ball_simps insert_iff) blast
  with raw small have below: "\<not> reaches no_str_float (of_int 100000) ?a"
    by simp
  from a b c out raw small below show ?thesis by blast
qed

subsection \<open>An entry that is no record ends the call\<close>

text \<open>
  Claim C4, at the input where the program departs from it. The claim speaks of every
  input list: each well-formed transaction that reaches the threshold has its alert in
  the result. The loop is written for that: the \<^verbatim>\<open>get\<close> calls of line 48 have
  defaults for keys that are missing, and the handler of line 57 skips a transaction
  whose amount \<^verbatim>\<open>float\<close> rejects (the second list below: the transaction before the
  malformed one is reported). But where a transaction has the key \<^verbatim>\<open>"stdTx"\<close> with
  the value \<^verbatim>\<open>None\<close> (JSON \<^verbatim>\<open>null\<close>), the default is not used and the next
  \<^verbatim>\<open>get\<close> raises \<^verbatim>\<open>AttributeError\<close>. Line 57 names \<^verbatim>\<open>KeyError\<close>, which
  nothing in the \<^verbatim>\<open>try\<close> block raises, and not \<^verbatim>\<open>AttributeError\<close>: the
  exception leaves the function, and the alert of the well-formed transaction before it,
  150_000_000_000 from A to B at threshold 100000, is lost with it (the third list).
\<close>

theorem null_entry_loses_alerts:
  "detect_large_movements no_str_float
     [tx_of [(''amount'', PInt 150000000000), (''from_address'', PStr ''A''),
             (''to_address'', PStr ''B'')]] 100000
   = Inr [\<lparr>m_hash = PNone, m_amount = Finite 150000, m_from = PStr ''A'',
           m_to = PStr ''B'', m_time = PNone\<rparr>]
   \<and> detect_large_movements no_str_float
     [tx_of [(''amount'', PInt 150000000000), (''from_address'', PStr ''A''),
             (''to_address'', PStr ''B'')],
      tx_of [(''amount'', PStr ''abc'')]] 100000
   = Inr [\<lparr>m_hash = PNone, m_amount = Finite 150000, m_from = PStr ''A'',
           m_to = PStr ''B'', m_time = PNone\<rparr>]
   \<and> detect_large_movements no_str_float
     [tx_of [(''amount'', PInt 150000000000), (''from_address'', PStr ''A''),
             (''to_address'', PStr ''B'')],
      PDict [(''hash'', PStr ''b''), (''stdTx'', PNone)]] 100000
   = Inl AttributeError"
  by code_simp

subsection \<open>An absent amount counts as zero\<close>

text \<open>
  Claim C10. For a transaction whose \<^verbatim>\<open>value\<close> dict has no \<^verbatim>\<open>amount\<close> key the
  raw amount of line 48 is the default 0 and the amount is 0.0. So for every threshold
  above zero the transaction gives no alert, and the result of the detector is the one
  for the list without it. No check for the missing field does that: at a threshold of
  zero or less the same transaction is reported.
\<close>

theorem absent_amount_is_zero:
  assumes "tx_value tx = Inr (PDict kvs)" and "map_of kvs ''amount'' = None"
  shows "raw_amount tx = Inr (PInt 0)
       \<and> tx_amount sf tx = Inr (Finite 0)
       \<and> (0 < th \<longrightarrow> large_movement sf tx th = Inr None
            \<and> detect_large_movements sf (xs @ tx # ys) th = detect_large_movements sf (xs @ ys) th)
       \<and> (th \<le> 0 \<longrightarrow> large_movement sf tx th = Inr (Some (alert sf tx)))"
proof -
  note amt = absent_amount(1) [OF assms] absent_amount(2) [OF assms, of sf]
  have pos: "large_movement sf tx th = Inr None" if "0 < th"
    using that amt by (simp add: large_movement_alert)
  have "detect_large_movements sf (xs @ tx # ys) th = detect_large_movements sf (xs @ ys) th"
    if "0 < th"
    using pos [OF that] by (intro omitted) (simp_all add: contribution_def escapes_def)
  moreover have "large_movement sf tx th = Inr (Some (alert sf tx))" if "th \<le> 0"
    using that amt by (simp add: large_movement_alert)
  ultimately show ?thesis using amt pos by simp
qed

theorem absent_amount_is_zero_witness:
  "tx_value (tx_of [(''from_address'', PStr ''A''), (''to_address'', PStr ''B'')])
     = Inr (PDict [(''from_address'', PStr ''A''), (''to_address'', PStr ''B'')])
   \<and> map_of [(''from_address'', PStr ''A''), (''to_address'', PStr ''B'')] ''amount'' = None
   \<and> (0::rat) < 100000
   \<and> tx_amount no_str_float (tx_of [(''from_address'', PStr ''A''), (''to_address'', PStr ''B'')])
       = Inr (Finite 0)
   \<and> detect_large_movements no_str_float
        ([] @ tx_of [(''from_address'', PStr ''A''), (''to_address'', PStr ''B'')] # []) 100000
       = Inr []"
proof -
  let ?kvs = "[(''from_address'', PStr ''A''), (''to_address'', PStr ''B'')]"
  have v: "tx_value (tx_of ?kvs) = Inr (PDict ?kvs)"
    by (simp add: tx_value_def tx_of_def)
  have m: "map_of ?kvs ''amount'' = None" by simp
  from absent_amount_is_zero [OF v m, of no_str_float 100000 "[]" "[]"] v
  show ?thesis by (simp add: detect_large_movements_def)
qed

subsection \<open>Missing fields and malformed amounts\<close>

lemma reaches_single:
  assumes "reaches sf th tx"
  shows "detect_large_movements sf [tx] th = Inr [alert sf tx]"
  using assms
  by (auto simp: detect_cons [of sf tx "[]"] large_movement_alert reaches_def
      detect_large_movements_def [of sf "[]"] split: sum.splits)

text \<open>
  Line 57 names three exception classes. Two others can leave line 48 and end the call:
  \<^verbatim>\<open>AttributeError\<close> when an entry on the way to the amount is no dict, and
  \<^verbatim>\<open>OverflowError\<close> when the amount is an int beyond the doubles. \<open>tx_ok\<close>
  excludes exactly these.
\<close>

lemma uncaught_exceptions:
  "detect_large_movements no_str_float [PDict [(''stdTx'', PNone)]] 100000 = Inl AttributeError"
  "detect_large_movements no_str_float [tx_of [(''amount'', PInt (10 ^ 400))]] 100000
     = Inl OverflowError"
  by code_simp+

text \<open>
  A transfer of 150_000_000_000 with a sender and no \<^verbatim>\<open>to_address\<close> is not left
  out: its alert is returned, with \<^verbatim>\<open>None\<close> as the receiver.
\<close>

theorem missing_to_address_is_reported:
  "detect_large_movements no_str_float
     [tx_of [(''amount'', PInt 150000000000), (''from_address'', PStr ''A'')]] 100000
   = Inr [\<lparr>m_hash = PNone, m_amount = Finite 150000, m_from = PStr ''A'',
           m_to = PNone, m_time = PNone\<rparr>]"
  by code_simp

text \<open>
  Claim C2, as amended. On every list of transaction records (\<open>tx_ok\<close>, which asks
  for no field: see \<open>tx_ok_iff\<close>) the detector returns and does not raise, whichever of
  \<^verbatim>\<open>to_address\<close>, \<^verbatim>\<open>from_address\<close> and \<^verbatim>\<open>amount\<close> are missing. A
  transaction whose amount \<^verbatim>\<open>float\<close> rejects with \<^verbatim>\<open>ValueError\<close> or
  \<^verbatim>\<open>TypeError\<close> is left out of the result at every threshold, and one with no amount
  is left out at every threshold above zero. A transaction that lacks an address is not
  left out for that: when its amount reaches the threshold its alert is returned, with
  \<^verbatim>\<open>None\<close> for the missing address.
\<close>

theorem detect_tolerates_missing_fields:
  "((\<forall>tx \<in> set txs. tx_ok tx) \<longrightarrow> (\<exists>out. detect_large_movements sf txs th = Inr out))
   \<and> (tx_amount sf tx = Inl ValueError \<or> tx_amount sf tx = Inl TypeError \<longrightarrow>
        detect_large_movements sf (xs @ tx # ys) th = detect_large_movements sf (xs @ ys) th)
   \<and> (tx_value tx = Inr (PDict kvs) \<and> map_of kvs ''amount'' = None \<and> 0 < th \<longrightarrow>
        tx_ok tx
      \<and> detect_large_movements sf (xs @ tx # ys) th = detect_large_movements sf (xs @ ys) th)
   \<and> (tx_value tx = Inr (PDict kvs) \<and> reaches sf th tx \<longrightarrow>
        detect_large_movements sf [tx] th = Inr [alert sf tx]
      \<and> (map_of kvs ''to_address'' = None \<longrightarrow> m_to (alert sf tx) = PNone)
      \<and> (map_of kvs ''from_address'' = None \<longrightarrow> m_from (alert sf tx) = PNone))"
proof (intro conjI impI)
  assume "\<forall>tx \<in> set txs. tx_ok tx"
  then show "\<exists>out. detect_large_movements sf txs th = Inr out"
    using detect_no_escape [of txs sf th] by (simp add: tx_ok_no_escape)
next
  assume "tx_amount sf tx = Inl ValueError \<or> tx_amount sf tx = Inl TypeError"
  then have "contribution sf th tx = []" and "\<not> escapes sf th tx"
    by (auto simp: contribution_def escapes_def caught_def large_movement_alert)
  then show "detect_large_movements sf (xs @ tx # ys) th = detect_large_movements sf (xs @ ys) th"
    by (rule omitted)
next
  assume a: "tx_value tx = Inr (PDict kvs) \<and> map_of kvs ''amount'' = None \<and> 0 < th"
  then show "tx_ok tx" by (auto simp: tx_ok_iff)
  from a have "tx_amount sf tx = Inr (Finite 0)" by (simp add: absent_amount)
  with a have "contribution sf th tx = []" and "\<not> escapes sf th tx"
    by (simp_all add: contribution_def escapes_def large_movement_alert)
  then show "detect_large_movements sf (xs @ tx # ys) th = detect_large_movements sf (xs @ ys) th"
    by (rule omitted)
next
  assume "tx_value tx = Inr (PDict kvs) \<and> reaches sf th tx"
  then show "detect_large_movements sf [tx] th = Inr [alert sf tx]"
    by (simp add: reaches_single)
next
  assume "tx_value tx = Inr (PDict kvs) \<and> reaches sf th tx" and "map_of kvs ''to_address'' = None"
  then show "m_to (alert sf tx) = PNone" by (simp add: alert_def item_def)
next
  assume "tx_value tx = Inr (PDict kvs) \<and> reaches sf th tx" and "map_of kvs ''from_address'' = None"
  then show "m_from (alert sf tx) = PNone" by (simp add: alert_def item_def)
qed

theorem detect_tolerates_missing_fields_witness:
  "tx_ok (tx_of [(''amount'', PStr ''abc''), (''to_address'', PStr ''B'')])
   \<and> tx_ok (tx_of [])
   \<and> tx_amount no_str_float (tx_of [(''amount'', PStr ''abc''), (''to_address'', PStr ''B'')])
       = Inl ValueError
   \<and> tx_amount no_str_float (tx_of [(''amount'', PNone)]) = Inl TypeError
   \<and> detect_large_movements no_str_float
        [tx_of [(''amount'', PStr ''abc''), (''to_address'', PStr ''B'')], tx_of []] 100000 = Inr []
   \<and> detect_large_movements no_str_float
        ([] @ tx_of [(''amount'', PNone)] # [tx_of [(''amount'', PInt 150000000000)]]) 100000
      = detect_large_movements no_str_float ([] @ [tx_of [(''amount'', PInt 150000000000)]]) 100000
   \<and> tx_value (tx_of []) = Inr (PDict []) \<and> map_of [] ''amount'' = (None :: pyval option)
   \<and> (0::rat) < 100000
   \<and> detect_large_movements no_str_float
        ([tx_of [(''amount'', PInt 150000000000)]] @ tx_of [] # []) 100000
      = detect_large_movements no_str_float ([tx_of [(''amount'', PInt 150000000000)]] @ []) 100000
   \<and> reaches no_str_float 100000 (tx_of [(''amount'', PInt 150000000000)])
   \<and> m_to (alert no_str_float (tx_of [(''amount'', PInt 150000000000)])) = PNone"
proof -
  let ?bad = "tx_of [(''amount'', PStr ''abc''), (''to_address'', PStr ''B'')]"
  let ?none = "tx_of [(''amount'', PNone)]"
  let ?big = "tx_of [(''amount'', PInt 150000000000)]"
  have ok: "tx_ok ?bad" "tx_ok (tx_of [])"
    by code_simp+
  have amt: "tx_amount no_str_float ?bad = Inl ValueError"
    "tx_amount no_str_float ?none = Inl TypeError"
    by code_simp+
  have big: "tx_value ?big = Inr (PDict [(''amount'', PInt 150000000000)])"
    "reaches no_str_float 100000 ?big"
    by code_simp+
  have out: "detect_large_movements no_str_float [?bad, tx_of []] 100000 = Inr []"
    by code_simp
  note t1 = detect_tolerates_missing_fields
    [of "[?bad, tx_of []]" no_str_float 100000 ?none "[]" "[?big]"]
  note t2 = detect_tolerates_missing_fields
    [of "[]" no_str_float 100000 ?big "[]" "[]" "[(''amount'', PInt 150000000000)]"]
  note t3 = detect_tolerates_missing_fields
    [of "[]" no_str_float 100000 "tx_of []" "[?big]" "[]" "[]"]
  have empty: "tx_value (tx_of []) = Inr (PDict [])"
    by (simp add: tx_value_def tx_of_def)
  from t1 t2 t3 ok amt big out empty show ?thesis by simp
qed

subsection \<open>The classifier\<close>

text \<open>
  Claim C6. \<^verbatim>\<open>check_exchange_wallet\<close> reads nothing but its argument and the fixed
  table, so it is a function of the address. For every address that can be a dict key
  (every str, and \<^verbatim>\<open>None\<close> for a missing address) it returns a label and raises
  nothing; an address that is no key of the table gets \<^verbatim>\<open>"Unknown"\<close>, a key of the
  table gets its label.
\<close>

theorem check_exchange_wallet_total:
  assumes "hashable address"
  shows "(\<exists>label. check_exchange_wallet address = Inr label)
       \<and> (address \<notin> PStr ` fst ` set known_exchanges \<longrightarrow>
            check_exchange_wallet address = Inr ''Unknown'')
       \<and> (\<forall>s label. address = PStr s \<and> map_of known_exchanges s = Some label \<longrightarrow>
            check_exchange_wallet address = Inr label)"
proof (intro conjI impI allI)
  from assms show "\<exists>label. check_exchange_wallet address = Inr label"
    by (simp add: check_exchange_wallet_def)
next
  assume "address \<notin> PStr ` fst ` set known_exchanges"
  then have "map_of known_exchanges s = None" if "address = PStr s" for s
    using that by (auto simp: map_of_eq_None_iff)
  with assms show "check_exchange_wallet address = Inr ''Unknown''"
    by (cases address) (simp_all add: check_exchange_wallet_def)
next
  fix s label
  assume "address = PStr s \<and> map_of known_exchanges s = Some label"
  then show "check_exchange_wallet address = Inr label"
    by (simp add: check_exchange_wallet_def)
qed

theorem check_exchange_wallet_total_witness:
  "hashable (PStr ''0x9999...'')
   \<and> check_exchange_wallet (PStr ''0x9999...'') = Inr ''Unknown''
   \<and> hashable PNone \<and> check_exchange_wallet PNone = Inr ''Unknown''
   \<and> check_exchange_wallet (PStr ''0x1234...'') = Inr ''Binance''
   \<and> check_exchange_wallet (PStr ''0x5678...'') = Inr ''Coinbase''"
proof -
  have a: "PStr ''0x9999...'' \<notin> PStr ` fst ` set known_exchanges"
    and b: "PNone \<notin> PStr ` fst ` set known_exchanges"
    by (auto simp: known_exchanges_def)
  have c: "map_of known_exchanges ''0x1234...'' = Some ''Binance''"
    and d: "map_of known_exchanges ''0x5678...'' = Some ''Coinbase''"
    by (simp_all add: known_exchanges_def)
  from check_exchange_wallet_total [of "PStr ''0x9999...''"]
    check_exchange_wallet_total [of PNone]
    check_exchange_wallet_total [of "PStr ''0x1234...''"]
    check_exchange_wallet_total [of "PStr ''0x5678...''"] a b c d
  show ?thesis by simp
qed

subsection \<open>The news check\<close>

lemma is_news_examples:
  "is_news ''Shannon mainnet launch''" "\<not> is_news ''Unrelated update''"
  "is_news ''Network UPGRADE notes''" "is_news ''shANNon''"
  by code_simp+

lemma news_loop_find:
  "(case news_loop es of Inl e \<Rightarrow> None | Inr r \<Rightarrow> r) =
     (case find stops es of None \<Rightarrow> None | Some e \<Rightarrow> news_of e)"
  by (induction es) (auto simp: stops_def news_of_def split: option.splits)

lemma find_Some_set: "find P xs = Some x \<Longrightarrow> x \<in> set xs"
  by (induction xs) (auto split: if_splits)

lemma find_stops_matches:
  "\<forall>e \<in> set es. title e \<noteq> None \<Longrightarrow> find stops es = find matches es"
  by (induction es) (auto simp: stops_def matches_def split: option.splits)

lemma find_stops_first:
  "\<forall>x \<in> set pre. \<not> stops x \<Longrightarrow> stops e \<Longrightarrow> find stops (pre @ e # post) = Some e"
  by (induction pre) simp_all

lemma not_stops_iff: "\<not> stops x \<longleftrightarrow> (\<exists>t. title x = Some t \<and> \<not> is_news t)"
  by (simp add: stops_def split: option.splits)

text \<open>
  An entry without a title hides the news behind it. In the first feed the second of
  two entries has the title "Shannon launch" and a link, but the first has no title:
  line 75 raises \<^verbatim>\<open>AttributeError\<close>, the handler of line 78 takes it for a failed
  fetch, and the check returns nothing. In the second feed the first entry whose title
  has a keyword has no link: line 76 raises, and the check returns nothing.
\<close>

theorem entry_without_title_hides_news:
  "is_news ''Shannon launch''
   \<and> fetch_migration_news
        (Feed [\<lparr>title = None, link = Some ''https://a''\<rparr>,
               \<lparr>title = Some ''Shannon launch'', link = Some ''https://b''\<rparr>]) = None
   \<and> is_news ''Upgrade now''
   \<and> fetch_migration_news
        (Feed [\<lparr>title = Some ''Upgrade now'', link = None\<rparr>,
               \<lparr>title = Some ''Shannon launch'', link = Some ''https://b''\<rparr>]) = None"
  by code_simp

text \<open>
  Claim C7, as amended. The news check returns nothing when the fetch fails, and raises
  nothing, whatever the feed. It reads the first five entries only, in feed order. It
  stops at the first of them that has no title or whose lower-cased title contains
  \<^verbatim>\<open>shannon\<close> or \<^verbatim>\<open>upgrade\<close>, and returns what it builds from that entry's
  title and link. So it returns the result built from the first entry whose title has a
  keyword when every entry before that one has a title and the entry has a link; it
  returns nothing when an entry without a title comes before any such entry, when the
  first such entry has no link, and when none of the first five entries has a keyword in
  its title (\<open>matches\<close>). On a feed whose first five entries all have a title and a link it
  returns the result built from the first entry whose title has a keyword, and nothing
  when there is no such entry. The feed of the scenario gives the first entry's title
  and link.
\<close>

theorem fetch_migration_news_first_match:
  "fetch_migration_news FeedFails = None
   \<and> fetch_migration_news (Feed es) = fetch_migration_news (Feed (take 5 es))
   \<and> fetch_migration_news (Feed es) =
       (case find stops (take 5 es) of None \<Rightarrow> None | Some e \<Rightarrow> news_of e)
   \<and> ((\<forall>e \<in> set (take 5 es). title e \<noteq> None \<and> link e \<noteq> None) \<longrightarrow>
        (case find matches (take 5 es) of
           None \<Rightarrow> fetch_migration_news (Feed es) = None
         | Some e \<Rightarrow>
             (\<exists>t l. title e = Some t \<and> link e = Some l \<and> is_news t
                \<and> fetch_migration_news (Feed es) = Some (News t l))))
   \<and> (take 5 es = pre @ e # post \<and> (\<forall>x \<in> set pre. \<exists>t. title x = Some t \<and> \<not> is_news t) \<longrightarrow>
        (\<forall>t l. title e = Some t \<and> is_news t \<and> link e = Some l \<longrightarrow>
           fetch_migration_news (Feed es) = Some (News t l))
      \<and> (title e = None \<longrightarrow> fetch_migration_news (Feed es) = None)
      \<and> (\<forall>t. title e = Some t \<and> is_news t \<and> link e = None \<longrightarrow>
           fetch_migration_news (Feed es) = None))
   \<and> ((\<forall>x \<in> set (take 5 es). \<not> matches x) \<longrightarrow> fetch_migration_news (Feed es) = None)
   \<and> fetch_migration_news
        (Feed [\<lparr>title = Some ''Shannon mainnet launch'', link = Some ''https://a''\<rparr>,
               \<lparr>title = Some ''Unrelated update'', link = Some ''https://b''\<rparr>])
       = Some (News ''Shannon mainnet launch'' ''https://a'')"
proof (intro conjI impI allI)
  show "fetch_migration_news FeedFails = None"
    by (simp add: fetch_migration_news_def)
  show "fetch_migration_news (Feed es) = fetch_migration_news (Feed (take 5 es))"
    by (simp add: fetch_migration_news_def)
  show *: "fetch_migration_news (Feed es) =
       (case find stops (take 5 es) of None \<Rightarrow> None | Some e \<Rightarrow> news_of e)"
    by (simp add: fetch_migration_news_def news_loop_find)
  show "fetch_migration_news
        (Feed [\<lparr>title = Some ''Shannon mainnet launch'', link = Some ''https://a''\<rparr>,
               \<lparr>title = Some ''Unrelated update'', link = Some ''https://b''\<rparr>])
       = Some (News ''Shannon mainnet launch'' ''https://a'')"
    by code_simp
  {
    assume wf: "\<forall>e \<in> set (take 5 es). title e \<noteq> None \<and> link e \<noteq> None"
    then have same: "find stops (take 5 es) = find matches (take 5 es)"
      by (intro find_stops_matches) simp
    show "case find matches (take 5 es) of
             None \<Rightarrow> fetch_migration_news (Feed es) = None
           | Some e \<Rightarrow>
               (\<exists>t l. title e = Some t \<and> link e = Some l \<and> is_news t
                  \<and> fetch_migration_news (Feed es) = Some (News t l))"
    proof (cases "find matches (take 5 es)")
      case None
      with * same show ?thesis by simp
    next
      case (Some e)
      then have "e \<in> set (take 5 es)" by (rule find_Some_set)
      with wf obtain t l where tl: "title e = Some t" "link e = Some l" by auto
      from Some have "matches e" by (auto simp: find_Some_iff)
      with tl have "is_news t" by (simp add: matches_def)
      with * same Some tl show ?thesis by (simp add: news_of_def)
    qed
  }
  {
    assume none: "\<forall>x \<in> set (take 5 es). \<not> matches x"
    show "fetch_migration_news (Feed es) = None"
    proof (cases "find stops (take 5 es)")
      case None
      with * show ?thesis by simp
    next
      case (Some e)
      then have "e \<in> set (take 5 es)" and "stops e"
        by (auto simp: find_Some_set find_Some_iff)
      with none have "title e = None"
        by (auto simp: stops_def matches_def split: option.splits)
      with * Some show ?thesis by (simp add: news_of_def)
    qed
  }
  assume split: "take 5 es = pre @ e # post
      \<and> (\<forall>x \<in> set pre. \<exists>t. title x = Some t \<and> \<not> is_news t)"
  then have pre: "\<forall>x \<in> set pre. \<not> stops x"
    by (simp add: not_stops_iff)
  have first: "fetch_migration_news (Feed es) = news_of e" if "stops e"
    using * split find_stops_first [OF pre that, of post] by simp
  {
    fix t l
    assume "title e = Some t \<and> is_news t \<and> link e = Some l"
    then show "fetch_migration_news (Feed es) = Some (News t l)"
      using first by (simp add: stops_def news_of_def)
  }
  {
    assume "title e = None"
    then show "fetch_migration_news (Feed es) = None"
      using first by (simp add: stops_def news_of_def)
  }
  {
    fix t
    assume "title e = Some t \<and> is_news t \<and> link e = None"
    then show "fetch_migration_news (Feed es) = None"
      using first by (simp add: stops_def news_of_def)
  }
qed

theorem fetch_migration_news_first_match_witness:
  "title \<lparr>title = Some ''Weekly notes'', link = Some ''https://a''\<rparr> \<noteq> None
   \<and> link \<lparr>title = Some ''Weekly notes'', link = Some ''https://a''\<rparr> \<noteq> None
   \<and> title \<lparr>title = Some ''Protocol UPGRADE ahead'', link = Some ''https://b''\<rparr> \<noteq> None
   \<and> link \<lparr>title = Some ''Protocol UPGRADE ahead'', link = Some ''https://b''\<rparr> \<noteq> None
   \<and> title \<lparr>title = Some ''Shannon again'', link = Some ''https://c''\<rparr> \<noteq> None
   \<and> link \<lparr>title = Some ''Shannon again'', link = Some ''https://c''\<rparr> \<noteq> None
   \<and> fetch_migration_news
        (Feed [\<lparr>title = Some ''Weekly notes'', link = Some ''https://a''\<rparr>,
               \<lparr>title = Some ''Protocol UPGRADE ahead'', link = Some ''https://b''\<rparr>,
               \<lparr>title = Some ''Shannon again'', link = Some ''https://c''\<rparr>])
       = Some (News ''Protocol UPGRADE ahead'' ''https://b'')
   \<and> \<not> is_news ''Weekly notes''
   \<and> fetch_migration_news
        (Feed [\<lparr>title = Some ''Weekly notes'', link = Some ''https://a''\<rparr>,
               \<lparr>title = None, link = Some ''https://b''\<rparr>,
               \<lparr>title = Some ''Shannon again'', link = Some ''https://c''\<rparr>])
       = None
   \<and> fetch_migration_news
        (Feed [\<lparr>title = Some ''Weekly notes'', link = Some ''https://a''\<rparr>]) = None"
proof -
  let ?a = "\<lparr>title = Some ''Weekly notes'', link = Some ''https://a''\<rparr>"
  let ?b = "\<lparr>title = Some ''Protocol UPGRADE ahead'', link = Some ''https://b''\<rparr>"
  let ?c = "\<lparr>title = Some ''Shannon again'', link = Some ''https://c''\<rparr>"
  let ?n = "\<lparr>title = None, link = Some ''https://b''\<rparr>"
  have wf: "\<forall>e \<in> set (take 5 [?a, ?b, ?c]). title e \<noteq> None \<and> link e \<noteq> None"
    by simp
  have first: "find matches (take 5 [?a, ?b, ?c]) = Some ?b"
    by code_simp
  have plain: "\<not> is_news ''Weekly notes''"
    by code_simp
  from fetch_migration_news_first_match [of "[?a, ?b, ?c]"] wf
  have "case find matches (take 5 [?a, ?b, ?c]) of
           None \<Rightarrow> fetch_migration_news (Feed [?a, ?b, ?c]) = None
         | Some e \<Rightarrow>
             (\<exists>t l. title e = Some t \<and> link e = Some l \<and> is_news t
                \<and> fetch_migration_news (Feed [?a, ?b, ?c]) = Some (News t l))"
    by blast
  then have found: "fetch_migration_news (Feed [?a, ?b, ?c])
      = Some (News ''Protocol UPGRADE ahead'' ''https://b'')"
    unfolding first by simp
  have split: "take 5 [?a, ?n, ?c] = [?a] @ ?n # [?c]
      \<and> (\<forall>x \<in> set [?a]. \<exists>t. title x = Some t \<and> \<not> is_news t)"
    using plain by simp
  have "title ?n = None" by simp
  with fetch_migration_news_first_match [of "[?a, ?n, ?c]" "[?a]" ?n "[?c]"] split
  have hidden: "fetch_migration_news (Feed [?a, ?n, ?c]) = None"
    by blast
  have "\<forall>x \<in> set (take 5 [?a]). \<not> matches x"
    using plain by (simp add: matches_def)
  with fetch_migration_news_first_match [of "[?a]"]
  have none: "fetch_migration_news (Feed [?a]) = None"
    by blast
  from found plain hidden none show ?thesis by simp
qed

subsection \<open>The notifier\<close>

text \<open>
  Claim C8. Whatever the destination and the message: when a call of the \<^verbatim>\<open>try\<close>
  block fails with an exception of the transport (a \<^verbatim>\<open>RequestException\<close>),
  \<^verbatim>\<open>send_telegram_message\<close> returns the failure result that carries the text of the
  exception; when no call fails it returns the decoded answer. So it raises nothing as
  long as the transport fails with its own exceptions only.
\<close>

theorem send_telegram_message_never_raises:
  "(\<forall>d. try_post (transport chat_id message) = Inl (RequestException d) \<longrightarrow>
        send_telegram_message transport chat_id message
          = Inr (PDict [(''ok'', PBool False), (''description'', PStr d)]))
   \<and> (\<forall>v. try_post (transport chat_id message) = Inr v \<longrightarrow>
        send_telegram_message transport chat_id message = Inr v)
   \<and> ((\<forall>e. try_post (transport chat_id message) = Inl e \<longrightarrow> (\<exists>d. e = RequestException d)) \<longrightarrow>
        (\<exists>r. send_telegram_message transport chat_id message = Inr r))"
  by (auto simp: send_telegram_message_def split: sum.splits error.splits)

theorem send_telegram_message_never_raises_witness:
  "try_post (always \<lparr>post_raises = Some (RequestException ''timed out''), status_raises = None,
       json_result = Inr PNone\<rparr> (PInt 1) Welcome) = Inl (RequestException ''timed out'')
   \<and> send_telegram_message
        (always \<lparr>post_raises = Some (RequestException ''timed out''), status_raises = None,
           json_result = Inr PNone\<rparr>) (PInt 1) Welcome
       = Inr (PDict [(''ok'', PBool False), (''description'', PStr ''timed out'')])
   \<and> try_post (always \<lparr>post_raises = None, status_raises = Some (RequestException ''403''),
       json_result = Inr PNone\<rparr> (PInt 1) Welcome) = Inl (RequestException ''403'')
   \<and> send_telegram_message
        (always \<lparr>post_raises = None, status_raises = Some (RequestException ''403''),
           json_result = Inr PNone\<rparr>) (PInt 1) Welcome
       = Inr (PDict [(''ok'', PBool False), (''description'', PStr ''403'')])
   \<and> send_telegram_message
        (always \<lparr>post_raises = None, status_raises = None,
           json_result = Inr (PDict [(''ok'', PBool True)])\<rparr>) (PInt 1) Welcome
       = Inr (PDict [(''ok'', PBool True)])"
proof -
  let ?down = "always \<lparr>post_raises = Some (RequestException ''timed out''), status_raises = None,
       json_result = Inr PNone\<rparr>"
  let ?refused = "always \<lparr>post_raises = None, status_raises = Some (RequestException ''403''),
       json_result = Inr PNone\<rparr>"
  let ?up = "always \<lparr>post_raises = None, status_raises = None,
       json_result = Inr (PDict [(''ok'', PBool True)])\<rparr>"
  have a: "try_post (?down (PInt 1) Welcome) = Inl (RequestException ''timed out'')"
    and b: "try_post (?refused (PInt 1) Welcome) = Inl (RequestException ''403'')"
    and c: "try_post (?up (PInt 1) Welcome) = Inr (PDict [(''ok'', PBool True)])"
    by (simp_all add: try_post_def always_def)
  from send_telegram_message_never_raises [of ?down "PInt 1" Welcome]
    send_telegram_message_never_raises [of ?refused "PInt 1" Welcome]
    send_telegram_message_never_raises [of ?up "PInt 1" Welcome] a b c
  show ?thesis by simp
qed

subsection \<open>The webhook\<close>

lemma dispatch_sends_one:
  "\<exists>reply. outbox (dispatch chat_id text s) = outbox s @ [(chat_id, reply)]"
  by (simp add: dispatch_def notify_def)

lemma read_update_no_message:
  "kvs \<noteq> [] \<Longrightarrow> map_of kvs ''message'' = None \<Longrightarrow> read_update (PDict kvs) = Inr None"
  by (simp add: read_update_def)

lemma read_update_message:
  assumes "map_of kvs ''message'' = Some (PDict m)" and "map_of m ''chat'' = Some (PDict c)"
    and "map_of c ''id'' = Some chat_id"
  shows "read_update (PDict kvs) =
           Inr (Some (chat_id, case map_of m ''text'' of Some t \<Rightarrow> t | None \<Rightarrow> PStr []))"
  using assms by (simp add: read_update_def)

text \<open>
  A message without a chat makes line 141 raise \<^verbatim>\<open>KeyError\<close>: the handler ends
  with that exception and gives no response of its own.
\<close>

lemma message_without_chat_raises:
  "webhook (PDict [(''message'', PDict [])]) s = (Inl KeyError, s)"
  by (simp add: webhook_def read_update_def)

text \<open>
  A payload that is not empty and has no \<^verbatim>\<open>"message"\<close> key gets the answer ok, not a
  client error.
\<close>

theorem update_without_message_is_ok:
  "webhook (PDict [(''update_id'', PInt 1)]) init_sys = (Inr (''ok'', 200), init_sys)"
  by code_simp

text \<open>
  Claim C3, as amended. The webhook answers with the client error 400, sends nothing
  and changes nothing for every payload that is empty (\<^verbatim>\<open>not update\<close>:
  \<^verbatim>\<open>null\<close>, \<^verbatim>\<open>{}\<close>, \<^verbatim>\<open>[]\<close>, zero, false or the empty str), in
  particular for \<^verbatim>\<open>{}\<close>.
  For an object that is not empty and has no \<^verbatim>\<open>"message"\<close> key it answers ok (200)
  and sends nothing. For an object whose message holds a chat with an id it dispatches
  on the text (the empty str when there is none), which sends exactly one reply to that
  chat, and answers ok (200).
\<close>

theorem webhook_responses:
  "(\<not> truthy update \<longrightarrow> webhook update s = (Inr (''Invalid request'', 400), s))
   \<and> webhook (PDict []) s = (Inr (''Invalid request'', 400), s)
   \<and> (kvs \<noteq> [] \<and> map_of kvs ''message'' = None \<longrightarrow>
        webhook (PDict kvs) s = (Inr (''ok'', 200), s))
   \<and> (map_of kvs ''message'' = Some (PDict m) \<and> map_of m ''chat'' = Some (PDict c)
        \<and> map_of c ''id'' = Some chat_id \<longrightarrow>
        (\<exists>text reply.
           text = (case map_of m ''text'' of Some t \<Rightarrow> t | None \<Rightarrow> PStr [])
         \<and> webhook (PDict kvs) s = (Inr (''ok'', 200), dispatch chat_id text s)
         \<and> outbox (dispatch chat_id text s) = outbox s @ [(chat_id, reply)]))"
proof (intro conjI impI)
  show "webhook (PDict []) s = (Inr (''Invalid request'', 400), s)"
    by (simp add: webhook_def)
next
  assume "\<not> truthy update"
  then show "webhook update s = (Inr (''Invalid request'', 400), s)" by (simp add: webhook_def)
next
  assume "kvs \<noteq> [] \<and> map_of kvs ''message'' = None"
  then show "webhook (PDict kvs) s = (Inr (''ok'', 200), s)"
    by (simp add: webhook_def read_update_no_message)
next
  assume a: "map_of kvs ''message'' = Some (PDict m) \<and> map_of m ''chat'' = Some (PDict c)
        \<and> map_of c ''id'' = Some chat_id"
  define t0 where "t0 = (case map_of m ''text'' of Some t \<Rightarrow> t | None \<Rightarrow> PStr [])"
  from a have "kvs \<noteq> []" by auto
  with a have "webhook (PDict kvs) s = (Inr (''ok'', 200), dispatch chat_id t0 s)"
    by (simp add: webhook_def read_update_message t0_def)
  moreover obtain reply where "outbox (dispatch chat_id t0 s) = outbox s @ [(chat_id, reply)]"
    using dispatch_sends_one by blast
  ultimately show "\<exists>text reply.
           text = (case map_of m ''text'' of Some t \<Rightarrow> t | None \<Rightarrow> PStr [])
         \<and> webhook (PDict kvs) s = (Inr (''ok'', 200), dispatch chat_id text s)
         \<and> outbox (dispatch chat_id text s) = outbox s @ [(chat_id, reply)]"
    using t0_def by blast
qed

theorem webhook_responses_witness:
  "\<not> truthy PNone
   \<and> webhook PNone init_sys = (Inr (''Invalid request'', 400), init_sys)
   \<and> [(''edited_message'', PDict [])] \<noteq> []
   \<and> map_of [(''edited_message'', PDict [])] ''message'' = None
   \<and> webhook (PDict [(''edited_message'', PDict [])]) init_sys = (Inr (''ok'', 200), init_sys)
   \<and> webhook (command (PInt 7) ''/status'') init_sys
       = (Inr (''ok'', 200), init_sys\<lparr>outbox := [(PInt 7, Status)]\<rparr>)"
proof -
  let ?m = "[(''chat'', PDict [(''id'', PInt 7)]), (''text'', PStr ''/status'')]"
  have a: "\<not> truthy PNone" by simp
  have b: "[(''edited_message'', PDict [])] \<noteq> []
      \<and> map_of [(''edited_message'', PDict [])] ''message'' = None"
    by simp
  have c: "map_of [(''message'', PDict ?m)] ''message'' = Some (PDict ?m)
      \<and> map_of ?m ''chat'' = Some (PDict [(''id'', PInt 7)])
      \<and> map_of [(''id'', PInt 7)] ''id'' = Some (PInt 7)"
    by simp
  have d: "dispatch (PInt 7) (case map_of ?m ''text'' of Some t \<Rightarrow> t | None \<Rightarrow> PStr []) init_sys
      = init_sys\<lparr>outbox := [(PInt 7, Status)]\<rparr>"
    by code_simp
  from webhook_responses [of PNone init_sys "[(''edited_message'', PDict [])]"]
    webhook_responses [of PNone init_sys "[(''message'', PDict ?m)]" ?m
      "[(''id'', PInt 7)]" "PInt 7"] a b c d
  show ?thesis by (simp add: command_def)
qed

subsection \<open>Starting the monitor\<close>

lemma monitor_while_running:
  "\<not> stop_event s \<Longrightarrow>
   webhook (command c ''/monitor'') s = (Inr (''ok'', 200), notify c AlreadyRunning s)"
  by (simp add: webhook_def read_update_def command_def dispatch_def)

lemma monitor_while_stopped:
  "stop_event s \<Longrightarrow>
   webhook (command c ''/monitor'') s =
     (Inr (''ok'', 200),
      notify c Started (s\<lparr>stop_event := False, threads := threads s @ [Looping]\<rparr>))"
  by (simp add: webhook_def read_update_def command_def dispatch_def)

text \<open>
  Claim C1, at the input where the program departs from it. Right after the start of the
  process the flag of \<^verbatim>\<open>monitor_stop_event\<close> is clear and no monitor thread exists.
  The test of line 150 reads a clear flag as "running": the first \<^verbatim>\<open>/monitor\<close>
  command is answered with "already running", starts no thread and leaves the state as
  it was but for that reply.
\<close>

theorem first_monitor_command_starts_nothing:
  "stop_event init_sys = False \<and> threads init_sys = []
   \<and> webhook (command (PInt 1) ''/monitor'') init_sys
       = (Inr (''ok'', 200), init_sys\<lparr>outbox := [(PInt 1, AlreadyRunning)]\<rparr>)"
  by code_simp

subsection \<open>The monitor loop and the flag\<close>

lemma detect_stub:
  "detect_large_movements sf fetch_pokt_transactions 100000 = Inr [stub_alert]"
  by code_simp

lemma check_stub: "check_exchange_wallet (m_to stub_alert) = Inr ''Binance''"
  by code_simp

lemma monitor_cycle_stub:
  "monitor_cycle sf home feed s =
     (None, case fetch_migration_news feed of
              Some news \<Rightarrow> notify (PStr home) news (notify (PStr home) (Alert stub_alert ''Binance'') s)
            | None \<Rightarrow> notify (PStr home) (Alert stub_alert ''Binance'') s)"
  by (simp add: monitor_cycle_def detect_stub check_stub)

lemma wake_stop_event: "stop_event (wake sf home j feed s) = stop_event s"
  by (simp add: wake_def monitor_cycle_stub notify_def split: option.splits)

lemma wake_length: "length (threads (wake sf home j feed s)) = length (threads s)"
  by (simp add: wake_def monitor_cycle_stub notify_def split: option.splits)

lemma wake_other: "j \<noteq> i \<Longrightarrow> threads (wake sf home j feed s) ! i = threads s ! i"
  by (simp add: wake_def monitor_cycle_stub notify_def split: option.splits)

lemma wake_set:
  "i < length (threads s) \<Longrightarrow> threads s ! i = Looping \<Longrightarrow> stop_event s \<Longrightarrow>
   wake sf home i feed s = s\<lparr>threads := (threads s)[i := Finished]\<rparr>"
  by (simp add: wake_def)

lemma wake_clear:
  "i < length (threads s) \<Longrightarrow> threads s ! i = Looping \<Longrightarrow> \<not> stop_event s \<Longrightarrow>
   wake sf home i feed s = snd (monitor_cycle sf home feed s)"
  by (simp add: wake_def monitor_cycle_stub)

lemma dispatch_threads:
  "threads (dispatch c t s) = threads s \<or> threads (dispatch c t s) = threads s @ [Looping]"
  by (simp add: dispatch_def notify_def)

lemma webhook_threads:
  "threads (snd (webhook u s)) = threads s \<or> threads (snd (webhook u s)) = threads s @ [Looping]"
  using dispatch_threads
  by (auto simp: webhook_def split: sum.splits option.splits)

lemma webhook_keeps_thread:
  "i < length (threads s) \<Longrightarrow>
   i < length (threads (snd (webhook u s))) \<and> threads (snd (webhook u s)) ! i = threads s ! i"
  using webhook_threads [of u s] by (auto simp: nth_append)

lemma webhook_keeps_flag:
  "\<not> start_command (Request u) \<Longrightarrow> stop_event s \<Longrightarrow> stop_event (snd (webhook u s))"
  by (auto simp: webhook_def start_command_def dispatch_def notify_def
      split: sum.splits option.splits)

lemma run_append: "run sf home s (es @ es') = run sf home (run sf home s es) es'"
  by (induction es arbitrary: s) simp_all

lemma stopped_run:
  assumes "i < length (threads s)" and "threads s ! i = Looping" and "stop_event s"
    and "\<forall>e \<in> set es. \<not> start_command e \<and> \<not> wakes i e"
  shows "stop_event (run sf home s es) \<and> i < length (threads (run sf home s es))
       \<and> threads (run sf home s es) ! i = Looping"
  using assms
proof (induction es arbitrary: s)
  case Nil
  then show ?case by simp
next
  case (Cons e es)
  have "stop_event (sys_step sf home s e) \<and> i < length (threads (sys_step sf home s e))
      \<and> threads (sys_step sf home s e) ! i = Looping"
  proof (cases e)
    case (Request u)
    with Cons.prems show ?thesis
      using webhook_keeps_thread [of i s u] webhook_keeps_flag [of u s] by simp
  next
    case (Wake j feed)
    with Cons.prems have "j \<noteq> i" by (simp add: wakes_def)
    with Wake Cons.prems show ?thesis
      by (simp add: wake_stop_event wake_length wake_other)
  qed
  with Cons.prems show ?case by (simp add: Cons.IH)
qed

text \<open>
  A stop that is followed by a start before the loop reads the flag again is not seen by
  the loop. Thread 0 is started and runs one pass; then \<^verbatim>\<open>/stop\<close> sets the flag
  while the thread sleeps, and \<^verbatim>\<open>/monitor\<close> clears it again and starts thread 1. At
  its next read thread 0 finds the flag clear: it stays in its loop and sends a further
  alert.
\<close>

theorem stop_then_start_is_not_observed:
  "stop_event (run no_str_float ''42'' init_sys
      [stop_request, start_request, Wake 0 FeedFails, stop_request])
   \<and> threads (run no_str_float ''42'' init_sys
      [stop_request, start_request, Wake 0 FeedFails, stop_request]) = [Looping]
   \<and> threads (run no_str_float ''42'' init_sys
      [stop_request, start_request, Wake 0 FeedFails, stop_request, start_request,
       Wake 0 FeedFails]) = [Looping, Looping]
   \<and> outbox (run no_str_float ''42'' init_sys
      [stop_request, start_request, Wake 0 FeedFails, stop_request, start_request,
       Wake 0 FeedFails])
     = [(PInt 1, Stopped), (PInt 1, Started), (PStr ''42'', Alert stub_alert ''Binance''),
        (PInt 1, Stopped), (PInt 1, Started), (PStr ''42'', Alert stub_alert ''Binance'')]"
  by code_simp

text \<open>
  Claim C9, as amended. A monitor thread reads the flag at the head of every pass, before
  it fetches anything. If the flag is set at that read, the thread leaves the loop there
  and runs no further pass: nothing is sent. After a stop the flag stays set as long as
  no \<^verbatim>\<open>/monitor\<close> command is handled, whatever else happens, so the thread ends at
  its next read, the one that follows the sleep in progress, and never runs again. Time
  is counted in events here; the length of the sleep in seconds is not modelled.
\<close>

theorem stop_observed_at_loop_head:
  assumes "i < length (threads s)" and "threads s ! i = Looping" and "stop_event s"
    and "\<forall>e \<in> set es. \<not> start_command e \<and> \<not> wakes i e"
  shows "wake sf home i feed s = s\<lparr>threads := (threads s)[i := Finished]\<rparr>
       \<and> stop_event (run sf home s es)
       \<and> threads (run sf home s es) ! i = Looping
       \<and> run sf home s (es @ [Wake i feed])
           = (run sf home s es)\<lparr>threads := (threads (run sf home s es))[i := Finished]\<rparr>
       \<and> threads (run sf home s (es @ [Wake i feed])) ! i = Finished
       \<and> outbox (run sf home s (es @ [Wake i feed])) = outbox (run sf home s es)
       \<and> wake sf home i feed' (run sf home s (es @ [Wake i feed]))
           = run sf home s (es @ [Wake i feed])"
proof -
  note r = stopped_run [OF assms, of sf home]
  then have w: "run sf home s (es @ [Wake i feed])
      = (run sf home s es)\<lparr>threads := (threads (run sf home s es))[i := Finished]\<rparr>"
    by (simp add: run_append wake_set)
  from r have "threads (run sf home s (es @ [Wake i feed])) ! i = Finished"
    unfolding w by simp
  moreover have "outbox (run sf home s (es @ [Wake i feed])) = outbox (run sf home s es)"
    unfolding w by simp
  moreover from r have "wake sf home i feed' (run sf home s (es @ [Wake i feed]))
      = run sf home s (es @ [Wake i feed])"
    unfolding w by (simp add: wake_def)
  ultimately show ?thesis using r w assms by (simp add: wake_set)
qed

theorem stop_observed_at_loop_head_witness:
  "stop_event (run no_str_float ''42'' init_sys [stop_request, start_request, Wake 0 FeedFails, stop_request])
   \<and> threads (run no_str_float ''42'' init_sys [stop_request, start_request, Wake 0 FeedFails, stop_request]) ! 0 = Looping
   \<and> \<not> start_command stop_request \<and> \<not> wakes 0 stop_request
   \<and> threads (run no_str_float ''42''
        (run no_str_float ''42'' init_sys [stop_request, start_request, Wake 0 FeedFails, stop_request])
        ([stop_request] @ [Wake 0 FeedFails])) ! 0 = Finished"
proof -
  let ?s = "run no_str_float ''42'' init_sys [stop_request, start_request, Wake 0 FeedFails, stop_request]"
  have a: "0 < length (threads ?s)" and b: "threads ?s ! 0 = Looping" and c: "stop_event ?s"
    by code_simp+
  have d: "\<not> start_command stop_request" "\<not> wakes 0 stop_request"
    by code_simp+
  then have e: "\<forall>e \<in> set [stop_request]. \<not> start_command e \<and> \<not> wakes 0 e" by simp
  from stop_observed_at_loop_head [OF a b c e, of no_str_float "''42''" FeedFails]
  have f: "threads (run no_str_float ''42'' ?s ([stop_request] @ [Wake 0 FeedFails])) ! 0 = Finished"
    by blast
  from c b d f show ?thesis by blast
qed

subsection \<open>Starting the monitor twice\<close>

text \<open>
  What the guard of line 150 does: a start command that is handled while the flag is
  clear starts no loop, leaves the flag and every thread as they are, so as many loops
  are active after it as before, and sends the requester the "already running" reply.
  From a state with the flag set and no active loop, two start commands handled one
  after the other leave one active loop: the first starts it and is answered "started",
  the second is answered "already running".
\<close>

theorem start_while_running_is_noop:
  "(\<not> stop_event s \<longrightarrow>
      webhook (command c ''/monitor'') s = (Inr (''ok'', 200), notify c AlreadyRunning s)
    \<and> threads (snd (webhook (command c ''/monitor'') s)) = threads s
    \<and> stop_event (snd (webhook (command c ''/monitor'') s)) = stop_event s
    \<and> looping (snd (webhook (command c ''/monitor'') s)) = looping s
    \<and> outbox (snd (webhook (command c ''/monitor'') s)) = outbox s @ [(c, AlreadyRunning)])
   \<and> (stop_event s \<and> looping s = 0 \<longrightarrow>
      looping (run sf home s [Request (command c ''/monitor''), Request (command c ''/monitor'')]) = 1
    \<and> outbox (run sf home s [Request (command c ''/monitor''), Request (command c ''/monitor'')])
        = outbox s @ [(c, Started), (c, AlreadyRunning)])"
proof (intro conjI impI)
  assume running: "\<not> stop_event s"
  then show w: "webhook (command c ''/monitor'') s = (Inr (''ok'', 200), notify c AlreadyRunning s)"
    by (rule monitor_while_running)
  show "threads (snd (webhook (command c ''/monitor'') s)) = threads s"
    and "stop_event (snd (webhook (command c ''/monitor'') s)) = stop_event s"
    and "looping (snd (webhook (command c ''/monitor'') s)) = looping s"
    and "outbox (snd (webhook (command c ''/monitor'') s)) = outbox s @ [(c, AlreadyRunning)]"
    unfolding w by (simp_all add: notify_def looping_def)
next
  assume stopped: "stop_event s \<and> looping s = 0"
  define s1 where "s1 = notify c Started (s\<lparr>stop_event := False, threads := threads s @ [Looping]\<rparr>)"
  have first: "snd (webhook (command c ''/monitor'') s) = s1"
    using stopped by (simp add: monitor_while_stopped s1_def)
  have "\<not> stop_event s1" by (simp add: s1_def notify_def)
  then have second: "snd (webhook (command c ''/monitor'') s1) = notify c AlreadyRunning s1"
    by (simp add: monitor_while_running)
  have r: "run sf home s [Request (command c ''/monitor''), Request (command c ''/monitor'')]
      = notify c AlreadyRunning s1"
    by (simp add: first second)
  from stopped show
    "looping (run sf home s [Request (command c ''/monitor''), Request (command c ''/monitor'')]) = 1"
    unfolding r by (simp add: s1_def notify_def looping_def)
  show "outbox (run sf home s [Request (command c ''/monitor''), Request (command c ''/monitor'')])
        = outbox s @ [(c, Started), (c, AlreadyRunning)]"
    unfolding r by (simp add: s1_def notify_def)
qed

theorem start_while_running_is_noop_witness:
  "\<not> stop_event (run no_str_float ''42'' init_sys [stop_request, start_request])
   \<and> looping (run no_str_float ''42'' init_sys [stop_request, start_request]) = 1
   \<and> looping (snd (webhook (command (PInt 1) ''/monitor'')
        (run no_str_float ''42'' init_sys [stop_request, start_request]))) = 1
   \<and> stop_event (run no_str_float ''42'' init_sys [stop_request])
   \<and> looping (run no_str_float ''42'' init_sys [stop_request]) = 0
   \<and> looping (run no_str_float ''42'' (run no_str_float ''42'' init_sys [stop_request])
        [Request (command (PInt 1) ''/monitor''), Request (command (PInt 1) ''/monitor'')]) = 1"
proof -
  let ?on = "run no_str_float ''42'' init_sys [stop_request, start_request]"
  let ?off = "run no_str_float ''42'' init_sys [stop_request]"
  have a: "\<not> stop_event ?on" and b: "looping ?on = 1"
    and c: "stop_event ?off" and d: "looping ?off = 0"
    by code_simp+
  from start_while_running_is_noop [of ?on "PInt 1"] a
  have "looping (snd (webhook (command (PInt 1) ''/monitor'') ?on)) = looping ?on"
    by blast
  with b have e: "looping (snd (webhook (command (PInt 1) ''/monitor'') ?on)) = 1"
    by (simp only:)
  from start_while_running_is_noop [of ?off "PInt 1" no_str_float "''42''"] c d
  have f: "looping (run no_str_float ''42'' ?off
        [Request (command (PInt 1) ''/monitor''), Request (command (PInt 1) ''/monitor'')]) = 1"
    by blast
  from a b c d e f show ?thesis by blast
qed

text \<open>
  Taken apart into its statements, the handler of a \<^verbatim>\<open>/monitor\<close> command does what
  \<open>dispatch\<close> does when no other step comes between them.
\<close>

lemma handler_alone:
  "overlap sf home c1 c2 [First, First, First, First] (AtGuard, h2, s)
     = (Returned, h2, dispatch c1 (PStr ''/monitor'') s)"
  by (simp add: dispatch_def notify_def)

text \<open>
  Two start commands that overlap. The flag is set and no loop is active. The first
  handler reads the flag, then the second reads it, before the first has cleared it: both
  find it set, and each goes on to clear it, start a thread and reply "started". Two
  loops are active. Nothing between line 150 and line 154 keeps the second handler out.
\<close>

lemma overlapping_starts_leave_two_loops:
  "stop_event (run no_str_float ''42'' init_sys [stop_request])
   \<and> looping (run no_str_float ''42'' init_sys [stop_request]) = 0
   \<and> overlap no_str_float ''42'' (PInt 1) (PInt 2)
        [First, Second, First, First, First, Second, Second, Second]
        (AtGuard, AtGuard, run no_str_float ''42'' init_sys [stop_request])
     = (Returned, Returned,
        \<lparr>stop_event = False, threads = [Looping, Looping],
         outbox = [(PInt 1, Stopped), (PInt 1, Started), (PInt 2, Started)]\<rparr>)"
  by code_simp

text \<open>
  The thread that line 154 starts may run its first pass before line 155 sends the
  reply: the alert is then sent before "started".
\<close>

lemma first_pass_before_reply:
  "overlap no_str_float ''42'' (PInt 1) (PInt 2)
        [First, First, First, Thread 0 FeedFails, First]
        (AtGuard, Returned, run no_str_float ''42'' init_sys [stop_request])
     = (Returned, Returned,
        \<lparr>stop_event = False, threads = [Looping],
         outbox = [(PInt 1, Stopped), (PStr ''42'', Alert stub_alert ''Binance''),
                   (PInt 1, Started)]\<rparr>)"
  by code_simp

text \<open>
  Claim C5, at the input where the program departs from it. The guard of line 150 is
  there to make a start command a no-op while a monitor loop is active. What it reads is
  the stop flag, and the flag does not tell whether a loop is active: after
  \<^verbatim>\<open>/stop\<close> has set it, the loop is still there, asleep at line 118, until its next
  read. After \<^verbatim>\<open>/stop\<close>, \<^verbatim>\<open>/monitor\<close> (thread 0 starts and runs a pass) and
  \<^verbatim>\<open>/stop\<close> again, one loop is active and the flag is set. The \<^verbatim>\<open>/monitor\<close>
  command handled then is not answered with "already running": it is answered with
  "started", clears the flag and starts thread 1. Thread 0 finds the flag clear at its
  next read, so both loops stay, and from then on every pass is run twice: the one
  transfer of the stub is reported by each loop.
\<close>

theorem restart_leaves_two_loops:
  "stop_event (run no_str_float ''42'' init_sys
      [stop_request, start_request, Wake 0 FeedFails, stop_request])
   \<and> looping (run no_str_float ''42'' init_sys
      [stop_request, start_request, Wake 0 FeedFails, stop_request]) = 1
   \<and> webhook (command (PInt 1) ''/monitor'')
       (run no_str_float ''42'' init_sys
          [stop_request, start_request, Wake 0 FeedFails, stop_request])
     = (Inr (''ok'', 200),
        \<lparr>stop_event = False, threads = [Looping, Looping],
         outbox = [(PInt 1, Stopped), (PInt 1, Started),
                   (PStr ''42'', Alert stub_alert ''Binance''),
                   (PInt 1, Stopped), (PInt 1, Started)]\<rparr>)
   \<and> looping (run no_str_float ''42'' init_sys
      [stop_request, start_request, Wake 0 FeedFails, stop_request, start_request]) = 2
   \<and> run no_str_float ''42'' init_sys
      [stop_request, start_request, Wake 0 FeedFails, stop_request, start_request,
       Wake 0 FeedFails, Wake 1 FeedFails]
     = \<lparr>stop_event = False, threads = [Looping, Looping],
        outbox = [(PInt 1, Stopped), (PInt 1, Started),
                  (PStr ''42'', Alert stub_alert ''Binance''),
                  (PInt 1, Stopped), (PInt 1, Started),
                  (PStr ''42'', Alert stub_alert ''Binance''),
                  (PStr ''42'', Alert stub_alert ''Binance'')]\<rparr>
   \<and> looping (run no_str_float ''42'' init_sys
      [stop_request, start_request, Wake 0 FeedFails, stop_request, start_request,
       Wake 0 FeedFails, Wake 1 FeedFails]) = 2"
  by code_simp

end
